theory Spec2Isabelle
  imports Main "HOL-Library.Word" "HOL-Library.Sublist"
begin

unbundle bit_operations_syntax

section \<open>Hotplug callbacks of libusbx (libusb/hotplug.c)\<close>

text \<open>
  A shallow embedding of \<^verbatim>\<open>src/libusb/hotplug.c\<close>. The C objects become records, the
  pointers become addresses (natural numbers) into total stores, the intrusive lists become
  HOL lists read from the head, and every function takes the library state and returns
  the new one. The calling thread is followed alone: the mutexes it holds are a field of
  the state, and every invocation of a user callback is appended to a log together with
  the mutexes held at that moment. A user callback is a function of its four arguments
  and of the application's own state; it returns its \<^verbatim>\<open>int\<close> and the new application
  state, and does not call back into the library.
\<close>

subsection \<open>Constants of libusb.h\<close>

text \<open>
  The C type \<^verbatim>\<open>int\<close> (and the enumerations stored in it) is a 32-bit word; \<open>sint\<close> reads
  its value. The header \<^verbatim>\<open>libusb.h\<close> gives the constants below.
\<close>

type_synonym c_int = "32 word"

definition LIBUSB_SUCCESS :: c_int where
  "LIBUSB_SUCCESS = 0"

definition LIBUSB_ERROR_INVALID_PARAM :: c_int where
  "LIBUSB_ERROR_INVALID_PARAM = - 2"

definition LIBUSB_ERROR_NO_MEM :: c_int where
  "LIBUSB_ERROR_NO_MEM = - 11"

definition LIBUSB_ERROR_NOT_SUPPORTED :: c_int where
  "LIBUSB_ERROR_NOT_SUPPORTED = - 12"

definition LIBUSB_HOTPLUG_EVENT_DEVICE_ARRIVED :: c_int where
  "LIBUSB_HOTPLUG_EVENT_DEVICE_ARRIVED = 1"

definition LIBUSB_HOTPLUG_EVENT_DEVICE_LEFT :: c_int where
  "LIBUSB_HOTPLUG_EVENT_DEVICE_LEFT = 2"

definition LIBUSB_HOTPLUG_ENUMERATE :: c_int where
  "LIBUSB_HOTPLUG_ENUMERATE = 1"

definition LIBUSB_HOTPLUG_MATCH_ANY :: c_int where
  "LIBUSB_HOTPLUG_MATCH_ANY = - 1"

subsection \<open>Data\<close>

text \<open>The three mutexes of a context, named by the context's address.\<close>

datatype mutex = Hotplug_cbs_lock nat | Usb_devs_lock nat | Open_devs_lock nat

record libusb_device_descriptor =
  idVendor :: "16 word"
  idProduct :: "16 word"
  bDeviceClass :: "8 word"

text \<open>\<^verbatim>\<open>struct libusb_device\<close>: the field \<open>dev_ctx\<close> is the C field \<^verbatim>\<open>ctx\<close>.\<close>

record libusb_device =
  dev_ctx :: nat
  device_descriptor :: libusb_device_descriptor

text \<open>
  \<^verbatim>\<open>struct libusb_device_handle\<close>: the field \<open>handle_dev\<close> is the C field \<^verbatim>\<open>dev\<close>, the
  address of the device the handle is bound to; \<open>disconnected\<close> is the liveness flag of
  the specification's OpenHandle.
\<close>

record libusb_device_handle =
  handle_dev :: nat
  disconnected :: bool

text \<open>
  \<^verbatim>\<open>libusb_hotplug_callback_fn\<close>: context (or NULL), device, event, user data; then the
  application state, which the callback may change.
\<close>

type_synonym 'u libusb_hotplug_callback_fn =
  "nat option \<Rightarrow> nat \<Rightarrow> c_int \<Rightarrow> nat \<Rightarrow> 'u \<Rightarrow> c_int \<times> 'u"

text \<open>\<^verbatim>\<open>struct libusb_hotplug_callback\<close> (hotplug.h), without its list links.\<close>

record 'u libusb_hotplug_callback =
  ctx :: nat
  vendor_id :: c_int
  product_id :: c_int
  dev_class :: c_int
  flags :: c_int
  events :: c_int
  cb :: "'u libusb_hotplug_callback_fn"
  handle :: c_int
  user_data :: nat
  needs_free :: c_int

text \<open>One invocation of a user callback, as the log keeps it.\<close>

record 'u hotplug_call =
  call_cb :: "'u libusb_hotplug_callback"
  call_ctx :: "nat option"
  call_dev :: nat
  call_event :: c_int
  call_user_data :: nat
  call_held :: "mutex list"

text \<open>\<^verbatim>\<open>struct libusb_context\<close>: the three lists this file walks.\<close>

record 'u libusb_context =
  usb_devs :: "nat list"
  open_devs :: "libusb_device_handle list"
  hotplug_cbs :: "'u libusb_hotplug_callback list"

text \<open>
  The state of the process: the platform's hotplug capability, the global
  \<^verbatim>\<open>usbi_default_context\<close> (NULL before the default context is initialised), the static
  counter \<^verbatim>\<open>handle_id\<close> of \<^verbatim>\<open>libusb_hotplug_register_callback\<close>, the contexts and the
  devices by address, the memory that receives \<^verbatim>\<open>*handle\<close>, the mutexes held by the calling
  thread, the application state and the log of callback invocations (oldest first).
\<close>

record 'u state =
  cap_has_hotplug :: bool
  usbi_default_context :: "nat option"
  handle_id :: c_int
  contexts :: "nat \<Rightarrow> 'u libusb_context"
  devices :: "nat \<Rightarrow> libusb_device"
  memory :: "nat \<Rightarrow> c_int"
  held :: "mutex list"
  user :: 'u
  calls :: "'u hotplug_call list"

subsection \<open>Helpers of libusbi.h\<close>

definition usbi_mutex_lock :: "mutex \<Rightarrow> 'u state \<Rightarrow> 'u state" where
  "usbi_mutex_lock m s = s\<lparr>held := m # held s\<rparr>"

definition usbi_mutex_unlock :: "mutex \<Rightarrow> 'u state \<Rightarrow> 'u state" where
  "usbi_mutex_unlock m s = s\<lparr>held := remove1 m (held s)\<rparr>"

text \<open>\<^verbatim>\<open>USBI_GET_CONTEXT(ctx)\<close>: a NULL context becomes the default context.\<close>

definition USBI_GET_CONTEXT :: "nat option \<Rightarrow> 'u state \<Rightarrow> nat option" where
  "USBI_GET_CONTEXT c s = (case c of None \<Rightarrow> usbi_default_context s | Some k \<Rightarrow> Some k)"

text \<open>
  \<^verbatim>\<open>list_add(entry, head)\<close> of libusbi.h links the entry directly behind the list head, so
  that it becomes the first element (\<^verbatim>\<open>list_add_tail\<close> is the helper that appends);
  \<^verbatim>\<open>list_for_each_entry\<close> walks from the first element to the last.
\<close>

definition list_add :: "'a \<Rightarrow> 'a list \<Rightarrow> 'a list" where
  "list_add entry head = entry # head"

text \<open>
  Modelled from the spec: \<^verbatim>\<open>usbi_handle_disconnect\<close> (defined outside hotplug.c) marks the
  handle disconnected.
\<close>

definition usbi_handle_disconnect :: "libusb_device_handle \<Rightarrow> libusb_device_handle" where
  "usbi_handle_disconnect h = h\<lparr>disconnected := True\<rparr>"

definition set_hotplug_cbs ::
  "nat \<Rightarrow> 'u libusb_hotplug_callback list \<Rightarrow> 'u state \<Rightarrow> 'u state" where
  "set_hotplug_cbs k l s = s\<lparr>contexts := (contexts s)(k := (contexts s k)\<lparr>hotplug_cbs := l\<rparr>)\<rparr>"

definition set_open_devs :: "nat \<Rightarrow> libusb_device_handle list \<Rightarrow> 'u state \<Rightarrow> 'u state" where
  "set_open_devs k l s = s\<lparr>contexts := (contexts s)(k := (contexts s k)\<lparr>open_devs := l\<rparr>)\<rparr>"

subsection \<open>usbi_hotplug_match_cb\<close>

text \<open>The call \<^verbatim>\<open>hotplug_cb->cb (c, dev, event, hotplug_cb->user_data)\<close>, logged.\<close>

definition invoke_cb ::
  "'u libusb_hotplug_callback \<Rightarrow> nat option \<Rightarrow> nat \<Rightarrow> c_int \<Rightarrow> 'u state \<Rightarrow> c_int \<times> 'u state" where
  "invoke_cb hotplug_cb c d event s =
     (let r = cb hotplug_cb c d event (user_data hotplug_cb) (user s)
      in (fst r,
          s\<lparr>user := snd r,
            calls := calls s @ [\<lparr>call_cb = hotplug_cb, call_ctx = c, call_dev = d,
                                 call_event = event, call_user_data = user_data hotplug_cb,
                                 call_held = held s\<rparr>]\<rparr>))"

definition usbi_hotplug_match_cb ::
  "nat \<Rightarrow> c_int \<Rightarrow> 'u libusb_hotplug_callback \<Rightarrow> 'u state \<Rightarrow> c_int \<times> 'u state" where
  "usbi_hotplug_match_cb d event hotplug_cb s =
     (let c = dev_ctx (devices s d) in
      if needs_free hotplug_cb \<noteq> 0 then (1, s)
      else if events hotplug_cb AND event = 0 then (0, s)
      else if LIBUSB_HOTPLUG_MATCH_ANY \<noteq> vendor_id hotplug_cb \<and>
              vendor_id hotplug_cb \<noteq> ucast (idVendor (device_descriptor (devices s d)))
        then (0, s)
      else if LIBUSB_HOTPLUG_MATCH_ANY \<noteq> product_id hotplug_cb \<and>
              product_id hotplug_cb \<noteq> ucast (idProduct (device_descriptor (devices s d)))
        then (0, s)
      else if LIBUSB_HOTPLUG_MATCH_ANY \<noteq> dev_class hotplug_cb \<and>
              dev_class hotplug_cb \<noteq> ucast (bDeviceClass (device_descriptor (devices s d)))
        then (0, s)
      else invoke_cb hotplug_cb (if Some c = usbi_default_context s then None else Some c)
             d event s)"

subsection \<open>usbi_hotplug_match\<close>

text \<open>
  The loop over \<^verbatim>\<open>ctx->hotplug_cbs\<close>: the mutex is released around each evaluation, and
  an entry whose evaluation returns nonzero is unlinked and freed. The result is the list
  of the entries that stay, in their order, and the state.
\<close>

fun hotplug_match_loop ::
  "nat \<Rightarrow> nat \<Rightarrow> c_int \<Rightarrow> 'u libusb_hotplug_callback list \<Rightarrow> 'u state \<Rightarrow>
   'u libusb_hotplug_callback list \<times> 'u state" where
  "hotplug_match_loop k d event [] s = ([], s)"
| "hotplug_match_loop k d event (hotplug_cb # next) s =
     (let s1 = usbi_mutex_unlock (Hotplug_cbs_lock k) s;
          r = usbi_hotplug_match_cb d event hotplug_cb s1;
          s2 = usbi_mutex_lock (Hotplug_cbs_lock k) (snd r);
          rest = hotplug_match_loop k d event next s2
      in (if fst r \<noteq> 0 then fst rest else hotplug_cb # fst rest, snd rest))"

text \<open>The loop over \<^verbatim>\<open>ctx->open_devs\<close> on a LEFT event.\<close>

fun disconnect_loop :: "nat \<Rightarrow> libusb_device_handle list \<Rightarrow> libusb_device_handle list" where
  "disconnect_loop d [] = []"
| "disconnect_loop d (h # hs) =
     (if d = handle_dev h then usbi_handle_disconnect h else h) # disconnect_loop d hs"

definition usbi_hotplug_match :: "nat \<Rightarrow> c_int \<Rightarrow> 'u state \<Rightarrow> 'u state" where
  "usbi_hotplug_match d event s =
     (let k = dev_ctx (devices s d);
          s1 = usbi_mutex_lock (Hotplug_cbs_lock k) s;
          r = hotplug_match_loop k d event (hotplug_cbs (contexts s1 k)) s1;
          s2 = set_hotplug_cbs k (fst r) (snd r);
          s3 = usbi_mutex_unlock (Hotplug_cbs_lock k) s2
      in if LIBUSB_HOTPLUG_EVENT_DEVICE_LEFT = event
         then (let s4 = usbi_mutex_lock (Open_devs_lock k) s3;
                   s5 = set_open_devs k (disconnect_loop d (open_devs (contexts s4 k))) s4
               in usbi_mutex_unlock (Open_devs_lock k) s5)
         else s3)"

subsection \<open>libusb_hotplug_register_callback\<close>

text \<open>The enumeration loop over \<^verbatim>\<open>ctx->usb_devs\<close>; the result of each evaluation is dropped.\<close>

fun enumerate_loop :: "nat list \<Rightarrow> 'u libusb_hotplug_callback \<Rightarrow> 'u state \<Rightarrow> 'u state" where
  "enumerate_loop [] new_callback s = s"
| "enumerate_loop (d # ds) new_callback s =
     enumerate_loop ds new_callback
       (snd (usbi_hotplug_match_cb d LIBUSB_HOTPLUG_EVENT_DEVICE_ARRIVED new_callback s))"

text \<open>
  The arguments are those of the C function, primed; \<open>cb_fn\<close> is \<open>None\<close> for a NULL function
  pointer and \<open>handle'\<close> is \<open>None\<close> for a NULL output location; \<open>calloc_ok\<close> says whether
  the allocation succeeds. The result is \<open>None\<close> when the function dereferences a NULL
  context (no context given and no default context), otherwise the returned code and the
  new state.
\<close>

definition libusb_hotplug_register_callback ::
  "nat option \<Rightarrow> c_int \<Rightarrow> c_int \<Rightarrow> c_int \<Rightarrow> c_int \<Rightarrow> c_int \<Rightarrow>
   'u libusb_hotplug_callback_fn option \<Rightarrow> nat \<Rightarrow> nat option \<Rightarrow> bool \<Rightarrow> 'u state \<Rightarrow>
   (c_int \<times> 'u state) option" where
  "libusb_hotplug_register_callback ctx' events' flags' vendor_id' product_id' dev_class'
       cb_fn user_data' handle' calloc_ok s =
     (if \<not> cap_has_hotplug s then Some (LIBUSB_ERROR_NOT_SUPPORTED, s)
      else if (LIBUSB_HOTPLUG_MATCH_ANY \<noteq> vendor_id' \<and> (NOT 0xffff AND vendor_id') \<noteq> 0) \<or>
              (LIBUSB_HOTPLUG_MATCH_ANY \<noteq> product_id' \<and> (NOT 0xffff AND product_id') \<noteq> 0) \<or>
              (LIBUSB_HOTPLUG_MATCH_ANY \<noteq> dev_class' \<and> (NOT 0xff AND dev_class') \<noteq> 0) \<or>
              cb_fn = None
        then Some (LIBUSB_ERROR_INVALID_PARAM, s)
      else if \<not> calloc_ok then Some (LIBUSB_ERROR_NO_MEM, s)
      else (case USBI_GET_CONTEXT ctx' s of
              None \<Rightarrow> None
            | Some k \<Rightarrow>
               (let s1 = usbi_mutex_lock (Hotplug_cbs_lock k) s;
                    new_callback = \<lparr>ctx = k, vendor_id = vendor_id', product_id = product_id',
                                    dev_class = dev_class', flags = flags', events = events',
                                    cb = the cb_fn, handle = handle_id s1,
                                    user_data = user_data', needs_free = 0\<rparr>;
                    s2 = s1\<lparr>handle_id := handle_id s1 + 1\<rparr>;
                    s3 = set_hotplug_cbs k (list_add new_callback (hotplug_cbs (contexts s2 k))) s2;
                    s4 = (if flags' AND LIBUSB_HOTPLUG_ENUMERATE \<noteq> 0
                          then usbi_mutex_unlock (Usb_devs_lock k)
                                 (enumerate_loop (usb_devs (contexts s3 k)) new_callback
                                    (usbi_mutex_lock (Usb_devs_lock k) s3))
                          else s3);
                    s5 = usbi_mutex_unlock (Hotplug_cbs_lock k) s4
                in Some (LIBUSB_SUCCESS,
                         case handle' of None \<Rightarrow> s5
                         | Some a \<Rightarrow> s5\<lparr>memory := (memory s5)(a := handle new_callback)\<rparr>))))"

subsection \<open>libusb_hotplug_deregister_callback and usbi_hotplug_deregister_all\<close>

fun deregister_loop ::
  "c_int \<Rightarrow> 'u libusb_hotplug_callback list \<Rightarrow> 'u libusb_hotplug_callback list" where
  "deregister_loop handle' [] = []"
| "deregister_loop handle' (hotplug_cb # rest) =
     (if handle' = handle hotplug_cb then hotplug_cb\<lparr>needs_free := 1\<rparr> else hotplug_cb)
       # deregister_loop handle' rest"

text \<open>The function returns nothing; \<open>None\<close> is again the dereference of a NULL context.\<close>

definition libusb_hotplug_deregister_callback ::
  "nat option \<Rightarrow> c_int \<Rightarrow> 'u state \<Rightarrow> 'u state option" where
  "libusb_hotplug_deregister_callback ctx' handle' s =
     (if \<not> cap_has_hotplug s then Some s
      else (case USBI_GET_CONTEXT ctx' s of
              None \<Rightarrow> None
            | Some k \<Rightarrow>
               (let s1 = usbi_mutex_lock (Hotplug_cbs_lock k) s;
                    s2 = set_hotplug_cbs k (deregister_loop handle' (hotplug_cbs (contexts s1 k))) s1
                in Some (usbi_mutex_unlock (Hotplug_cbs_lock k) s2))))"

fun deregister_all_loop ::
  "'u libusb_hotplug_callback list \<Rightarrow> 'u libusb_hotplug_callback list" where
  "deregister_all_loop [] = []"
| "deregister_all_loop (hotplug_cb # next) = deregister_all_loop next"

definition usbi_hotplug_deregister_all :: "nat \<Rightarrow> 'u state \<Rightarrow> 'u state" where
  "usbi_hotplug_deregister_all k s =
     (let s1 = usbi_mutex_lock (Hotplug_cbs_lock k) s;
          s2 = set_hotplug_cbs k (deregister_all_loop (hotplug_cbs (contexts s1 k))) s1
      in usbi_mutex_unlock (Hotplug_cbs_lock k) s2)"

subsection \<open>Sequences of operations\<close>

text \<open>
  The operations of this file as a datatype, to state what holds after any sequence of
  them. A step also collects the handle ids assigned by the successful registrations:
  the id is read from the entry that the registration has linked at the head of the
  context's list.
\<close>

datatype 'u hotplug_op =
    Register "nat option" c_int c_int c_int c_int c_int
      "'u libusb_hotplug_callback_fn option" nat "nat option" bool
  | Deregister "nat option" c_int
  | Match nat c_int
  | Deregister_all nat

fun step :: "'u hotplug_op \<Rightarrow> c_int list \<times> 'u state \<Rightarrow> (c_int list \<times> 'u state) option" where
  "step (Register c evs fl v p dc f ud h ok) (ids, s) =
     (case libusb_hotplug_register_callback c evs fl v p dc f ud h ok s of
        None \<Rightarrow> None
      | Some (rc, s') \<Rightarrow>
          Some (if rc = LIBUSB_SUCCESS
                then ids @ [handle (hd (hotplug_cbs (contexts s' (the (USBI_GET_CONTEXT c s)))))]
                else ids, s'))"
| "step (Deregister c h) (ids, s) =
     (case libusb_hotplug_deregister_callback c h s of
        None \<Rightarrow> None
      | Some s' \<Rightarrow> Some (ids, s'))"
| "step (Match d ev) (ids, s) = Some (ids, usbi_hotplug_match d ev s)"
| "step (Deregister_all k) (ids, s) = Some (ids, usbi_hotplug_deregister_all k s)"

fun run :: "'u hotplug_op list \<Rightarrow> c_int list \<times> 'u state \<Rightarrow> (c_int list \<times> 'u state) option" where
  "run [] x = Some x"
| "run (op # ops) x = (case step op x of None \<Rightarrow> None | Some y \<Rightarrow> run ops y)"

subsection \<open>The vocabulary of the specification\<close>

text \<open>
  The Matcher's outcomes. The C function returns an \<^verbatim>\<open>int\<close>, and the dispatcher removes
  the entry exactly when it is nonzero; an evaluation that returns zero has matched when
  it has invoked the callback, which shows in the log.
\<close>

datatype outcome = OUTCOME_NO_MATCH | OUTCOME_MATCHED_KEEP | OUTCOME_REMOVE

definition outcome_of :: "'u state \<Rightarrow> c_int \<times> 'u state \<Rightarrow> outcome" where
  "outcome_of s r =
     (if fst r \<noteq> 0 then OUTCOME_REMOVE
      else if calls (snd r) = calls s then OUTCOME_NO_MATCH
      else OUTCOME_MATCHED_KEEP)"

text \<open>Some vendor, product or class filter is not ANY and differs from the device's field.\<close>

definition filter_differs :: "'u libusb_hotplug_callback \<Rightarrow> libusb_device_descriptor \<Rightarrow> bool" where
  "filter_differs e dd \<longleftrightarrow>
     (vendor_id e \<noteq> LIBUSB_HOTPLUG_MATCH_ANY \<and> vendor_id e \<noteq> ucast (idVendor dd)) \<or>
     (product_id e \<noteq> LIBUSB_HOTPLUG_MATCH_ANY \<and> product_id e \<noteq> ucast (idProduct dd)) \<or>
     (dev_class e \<noteq> LIBUSB_HOTPLUG_MATCH_ANY \<and> dev_class e \<noteq> ucast (bDeviceClass dd))"

text \<open>The context as a callback sees it: NULL for the default context.\<close>

definition ctx_or_null :: "nat \<Rightarrow> 'u state \<Rightarrow> nat option" where
  "ctx_or_null k s = (if usbi_default_context s = Some k then None else Some k)"

text \<open>An active entry whose event mask and filter accept the event of the device.\<close>

definition matches :: "'u libusb_hotplug_callback \<Rightarrow> nat \<Rightarrow> c_int \<Rightarrow> 'u state \<Rightarrow> bool" where
  "matches e d ev s \<longleftrightarrow>
     needs_free e = 0 \<and> events e AND ev \<noteq> 0 \<and>
     \<not> filter_differs e (device_descriptor (devices s d))"

text \<open>The invocations that the step from \<open>s\<close> to \<open>s'\<close> has added to the log.\<close>

definition new_calls :: "'u state \<Rightarrow> 'u state \<Rightarrow> 'u hotplug_call list" where
  "new_calls s s' = drop (length (calls s)) (calls s')"

text \<open>A filter value that is not ANY and does not fit \<open>n\<close> bits.\<close>

definition out_of_domain :: "nat \<Rightarrow> c_int \<Rightarrow> bool" where
  "out_of_domain n v \<longleftrightarrow> v \<noteq> LIBUSB_HOTPLUG_MATCH_ANY \<and> \<not> (0 \<le> sint v \<and> sint v < 2 ^ n)"

text \<open>The parameters that registration accepts.\<close>

definition valid_params ::
  "c_int \<Rightarrow> c_int \<Rightarrow> c_int \<Rightarrow> 'u libusb_hotplug_callback_fn option \<Rightarrow> bool" where
  "valid_params v p dc f \<longleftrightarrow>
     f \<noteq> None \<and> \<not> out_of_domain 16 v \<and> \<not> out_of_domain 16 p \<and> \<not> out_of_domain 8 dc"

text \<open>The entry that a successful registration in context \<open>k\<close> creates in state \<open>s\<close>.\<close>

definition registered_entry ::
  "nat \<Rightarrow> c_int \<Rightarrow> c_int \<Rightarrow> c_int \<Rightarrow> c_int \<Rightarrow> c_int \<Rightarrow> 'u libusb_hotplug_callback_fn \<Rightarrow> nat \<Rightarrow>
   'u state \<Rightarrow> 'u libusb_hotplug_callback" where
  "registered_entry k evs fl v p dc fn ud s =
     \<lparr>ctx = k, vendor_id = v, product_id = p, dev_class = dc, flags = fl, events = evs,
      cb = fn, handle = handle_id s, user_data = ud, needs_free = 0\<rparr>"

text \<open>The same entry up to its lifecycle flag.\<close>

definition same_entry :: "'u libusb_hotplug_callback \<Rightarrow> 'u libusb_hotplug_callback \<Rightarrow> bool" where
  "same_entry a b \<longleftrightarrow> b = a\<lparr>needs_free := needs_free b\<rparr>"

text \<open>The \<open>n\<close> successive values of the counter from \<open>h\<close> on.\<close>

definition ids_from :: "c_int \<Rightarrow> nat \<Rightarrow> c_int list" where
  "ids_from h n = map (\<lambda>i. h + of_nat i) [0..<n]"

subsection \<open>A concrete process\<close>

text \<open>
  Two contexts, at the addresses 1 (the default context) and 2. Context 1 knows the devices
  10, the device 045a:5005 of the example in the documentation of hotplug.c, and 11, a
  device 1234:0001 of class 9; it has three open handles, two of them bound to device 10.
  Every other address holds a device of context 2. The static counter has its initial
  value 1, and the thread holds no mutex. The application state is the number of callback
  invocations, the \<^verbatim>\<open>count\<close> of that example.
\<close>

definition count_callback :: "nat libusb_hotplug_callback_fn" where
  "count_callback c d ev ud u = (0, Suc u)"

text \<open>A callback that asks to be detached.\<close>

definition detach_callback :: "nat libusb_hotplug_callback_fn" where
  "detach_callback c d ev ud u = (1, Suc u)"

definition example_devices :: "nat \<Rightarrow> libusb_device" where
  "example_devices a =
     (if a = 10
      then \<lparr>dev_ctx = 1,
            device_descriptor = \<lparr>idVendor = 0x045a, idProduct = 0x5005, bDeviceClass = 0\<rparr>\<rparr>
      else \<lparr>dev_ctx = (if a = 11 then 1 else 2),
            device_descriptor = \<lparr>idVendor = 0x1234, idProduct = 1, bDeviceClass = 9\<rparr>\<rparr>)"

definition example_contexts :: "nat \<Rightarrow> nat libusb_context" where
  "example_contexts k =
     (if k = 1
      then \<lparr>usb_devs = [10, 11],
            open_devs = [\<lparr>handle_dev = 10, disconnected = False\<rparr>,
                         \<lparr>handle_dev = 11, disconnected = False\<rparr>,
                         \<lparr>handle_dev = 10, disconnected = False\<rparr>],
            hotplug_cbs = []\<rparr>
      else \<lparr>usb_devs = [], open_devs = [], hotplug_cbs = []\<rparr>)"

definition example_state :: "nat state" where
  "example_state =
     \<lparr>cap_has_hotplug = True, usbi_default_context = Some 1, handle_id = 1,
      contexts = example_contexts, devices = example_devices, memory = (\<lambda>a. 0),
      held = [], user = 0, calls = []\<rparr>"

text \<open>
  The entry of the documentation's example (both events, 045a:5005, any class) in the
  default context, with the handle id \<open>h\<close> and the lifecycle flag \<open>nf\<close>.
\<close>

definition example_entry :: "c_int \<Rightarrow> c_int \<Rightarrow> nat libusb_hotplug_callback" where
  "example_entry h nf =
     \<lparr>ctx = 1, vendor_id = 0x045a, product_id = 0x5005, dev_class = LIBUSB_HOTPLUG_MATCH_ANY,
      flags = 0, events = 3, cb = count_callback, handle = h, user_data = 0,
      needs_free = nf\<rparr>"

text \<open>The process after one registration of that entry, and after two.\<close>

definition example_once :: "nat state" where
  "example_once =
     example_state
       \<lparr>handle_id := 2,
        contexts := example_contexts
          (1 := (example_contexts 1)\<lparr>hotplug_cbs := [example_entry 1 0]\<rparr>)\<rparr>"

definition example_registered :: "nat state" where
  "example_registered =
     example_state
       \<lparr>handle_id := 3,
        contexts := example_contexts
          (1 := (example_contexts 1)\<lparr>hotplug_cbs := [example_entry 2 0, example_entry 1 0]\<rparr>)\<rparr>"

text \<open>The process after the deregistration of the handle 2.\<close>

definition example_pending :: "nat state" where
  "example_pending =
     example_state
       \<lparr>handle_id := 3,
        contexts := example_contexts
          (1 := (example_contexts 1)\<lparr>hotplug_cbs := [example_entry 2 1, example_entry 1 0]\<rparr>)\<rparr>"

text \<open>The process when the counter has reached \<^verbatim>\<open>INT_MAX\<close>.\<close>

definition example_max :: "nat state" where
  "example_max = example_state\<lparr>handle_id := 0x7fffffff\<rparr>"

text \<open>
  The process after a registration with the flag ENUMERATE of a callback that asks to be
  detached: the enumeration has invoked the callback for device 10.
\<close>

definition example_enumerated :: "nat state" where
  "example_enumerated =
     example_state
       \<lparr>handle_id := 2,
        contexts := example_contexts
          (1 := (example_contexts 1)
             \<lparr>hotplug_cbs := [(example_entry 1 0)\<lparr>flags := 1, cb := detach_callback\<rparr>]\<rparr>),
        user := 1,
        calls := [\<lparr>call_cb = (example_entry 1 0)\<lparr>flags := 1, cb := detach_callback\<rparr>,
                   call_ctx = None, call_dev = 10, call_event = 1, call_user_data = 0,
                   call_held = [Usb_devs_lock 1, Hotplug_cbs_lock 1]\<rparr>]\<rparr>"

section \<open>Frame and loop lemmas\<close>

lemma match_cb_frame [simp]:
  "contexts (snd (usbi_hotplug_match_cb d ev e s)) = contexts s"
  "devices (snd (usbi_hotplug_match_cb d ev e s)) = devices s"
  "handle_id (snd (usbi_hotplug_match_cb d ev e s)) = handle_id s"
  "memory (snd (usbi_hotplug_match_cb d ev e s)) = memory s"
  "held (snd (usbi_hotplug_match_cb d ev e s)) = held s"
  "cap_has_hotplug (snd (usbi_hotplug_match_cb d ev e s)) = cap_has_hotplug s"
  "usbi_default_context (snd (usbi_hotplug_match_cb d ev e s)) = usbi_default_context s"
  by (simp_all add: usbi_hotplug_match_cb_def invoke_cb_def Let_def)

lemma match_cb_calls:
  "calls (snd (usbi_hotplug_match_cb d ev e s)) =
     calls s @ (if matches e d ev s
                then [\<lparr>call_cb = e, call_ctx = ctx_or_null (dev_ctx (devices s d)) s,
                       call_dev = d, call_event = ev, call_user_data = user_data e,
                       call_held = held s\<rparr>]
                else [])"
  by (auto simp: usbi_hotplug_match_cb_def invoke_cb_def Let_def matches_def filter_differs_def
        ctx_or_null_def)

lemma match_cb_pending: "needs_free e \<noteq> 0 \<Longrightarrow> usbi_hotplug_match_cb d ev e s = (1, s)"
  by (simp add: usbi_hotplug_match_cb_def)

lemma lock_frame [simp]:
  "contexts (usbi_mutex_lock m s) = contexts s"
  "devices (usbi_mutex_lock m s) = devices s"
  "handle_id (usbi_mutex_lock m s) = handle_id s"
  "memory (usbi_mutex_lock m s) = memory s"
  "held (usbi_mutex_lock m s) = m # held s"
  "cap_has_hotplug (usbi_mutex_lock m s) = cap_has_hotplug s"
  "usbi_default_context (usbi_mutex_lock m s) = usbi_default_context s"
  "user (usbi_mutex_lock m s) = user s"
  "calls (usbi_mutex_lock m s) = calls s"
  by (simp_all add: usbi_mutex_lock_def)

lemma unlock_frame [simp]:
  "contexts (usbi_mutex_unlock m s) = contexts s"
  "devices (usbi_mutex_unlock m s) = devices s"
  "handle_id (usbi_mutex_unlock m s) = handle_id s"
  "memory (usbi_mutex_unlock m s) = memory s"
  "held (usbi_mutex_unlock m s) = remove1 m (held s)"
  "cap_has_hotplug (usbi_mutex_unlock m s) = cap_has_hotplug s"
  "usbi_default_context (usbi_mutex_unlock m s) = usbi_default_context s"
  "user (usbi_mutex_unlock m s) = user s"
  "calls (usbi_mutex_unlock m s) = calls s"
  by (simp_all add: usbi_mutex_unlock_def)

lemma unlock_lock [simp]: "usbi_mutex_unlock m (usbi_mutex_lock m s) = s"
  by (simp add: usbi_mutex_unlock_def usbi_mutex_lock_def)

lemma set_hotplug_cbs_frame [simp]:
  "contexts (set_hotplug_cbs k l s) = (contexts s)(k := (contexts s k)\<lparr>hotplug_cbs := l\<rparr>)"
  "devices (set_hotplug_cbs k l s) = devices s"
  "handle_id (set_hotplug_cbs k l s) = handle_id s"
  "memory (set_hotplug_cbs k l s) = memory s"
  "held (set_hotplug_cbs k l s) = held s"
  "cap_has_hotplug (set_hotplug_cbs k l s) = cap_has_hotplug s"
  "usbi_default_context (set_hotplug_cbs k l s) = usbi_default_context s"
  "user (set_hotplug_cbs k l s) = user s"
  "calls (set_hotplug_cbs k l s) = calls s"
  by (simp_all add: set_hotplug_cbs_def)

lemma set_open_devs_frame [simp]:
  "contexts (set_open_devs k l s) = (contexts s)(k := (contexts s k)\<lparr>open_devs := l\<rparr>)"
  "devices (set_open_devs k l s) = devices s"
  "handle_id (set_open_devs k l s) = handle_id s"
  "memory (set_open_devs k l s) = memory s"
  "held (set_open_devs k l s) = held s"
  "cap_has_hotplug (set_open_devs k l s) = cap_has_hotplug s"
  "usbi_default_context (set_open_devs k l s) = usbi_default_context s"
  "user (set_open_devs k l s) = user s"
  "calls (set_open_devs k l s) = calls s"
  by (simp_all add: set_open_devs_def)

lemma match_loop_frame [simp]:
  "contexts (snd (hotplug_match_loop k d ev l s)) = contexts s"
  "devices (snd (hotplug_match_loop k d ev l s)) = devices s"
  "handle_id (snd (hotplug_match_loop k d ev l s)) = handle_id s"
  "memory (snd (hotplug_match_loop k d ev l s)) = memory s"
  "cap_has_hotplug (snd (hotplug_match_loop k d ev l s)) = cap_has_hotplug s"
  "usbi_default_context (snd (hotplug_match_loop k d ev l s)) = usbi_default_context s"
  by (induction l arbitrary: s; simp add: Let_def)+

lemma match_loop_held:
  "held s = Hotplug_cbs_lock k # h \<Longrightarrow> held (snd (hotplug_match_loop k d ev l s)) = held s"
  by (induction l arbitrary: s) (simp_all add: Let_def)

lemma match_loop_calls:
  "\<exists>cs. calls (snd (hotplug_match_loop k d ev l s)) = calls s @ cs \<and>
        map call_cb cs = filter (\<lambda>e. matches e d ev s) l \<and>
        (\<forall>c\<in>set cs. call_held c = remove1 (Hotplug_cbs_lock k) (held s))"
proof (induction l arbitrary: s)
  case Nil
  then show ?case by simp
next
  case (Cons e l)
  define s1 where "s1 = usbi_mutex_unlock (Hotplug_cbs_lock k) s"
  define s2 where "s2 = usbi_mutex_lock (Hotplug_cbs_lock k) (snd (usbi_hotplug_match_cb d ev e s1))"
  obtain cs where cs: "calls (snd (hotplug_match_loop k d ev l s2)) = calls s2 @ cs"
    "map call_cb cs = filter (\<lambda>e. matches e d ev s2) l"
    "\<forall>c\<in>set cs. call_held c = remove1 (Hotplug_cbs_lock k) (held s2)"
    using Cons.IH [of s2] by blast
  have dev: "devices s2 = devices s" "devices s1 = devices s"
    by (simp_all add: s2_def s1_def)
  have m: "\<And>x. matches x d ev s2 = matches x d ev s" "\<And>x. matches x d ev s1 = matches x d ev s"
    by (simp_all add: matches_def dev)
  have h2: "remove1 (Hotplug_cbs_lock k) (held s2) = remove1 (Hotplug_cbs_lock k) (held s)"
    by (simp add: s2_def s1_def)
  have c2: "calls s2 = calls s @ (if matches e d ev s
                then [\<lparr>call_cb = e, call_ctx = ctx_or_null (dev_ctx (devices s1 d)) s1,
                       call_dev = d, call_event = ev, call_user_data = user_data e,
                       call_held = remove1 (Hotplug_cbs_lock k) (held s)\<rparr>]
                else [])"
    by (simp add: s2_def match_cb_calls m) (simp add: s1_def)
  have "snd (hotplug_match_loop k d ev (e # l) s) = snd (hotplug_match_loop k d ev l s2)"
    by (simp add: Let_def s2_def s1_def)
  then show ?case
    using cs c2 by (auto simp: m h2)
qed

subsection \<open>The range check of the filter fields\<close>

lemma not_mask_and_zero:
  "(NOT (mask n) AND (v :: 'a::len word) = 0) \<longleftrightarrow> take_bit n v = v"
  by (auto simp: bit_eq_iff bit_and_iff bit_not_iff bit_mask_iff bit_take_bit_iff dest: bit_imp_le_length)

lemma take_bit_self_uint:
  "take_bit n (v :: 'a::len word) = v \<longleftrightarrow> uint v < 2 ^ n"
proof -
  have "take_bit n v = v \<longleftrightarrow> uint (take_bit n v) = uint v"
    by (simp add: word_uint_eq_iff)
  also have "\<dots> \<longleftrightarrow> take_bit n (uint v) = uint v"
    by (simp add: unsigned_take_bit_eq)
  also have "\<dots> \<longleftrightarrow> uint v < 2 ^ n"
    by (simp add: take_bit_int_eq_self_iff)
  finally show ?thesis .
qed

lemma uint_small_sint:
  assumes "uint (v :: 32 word) < 2 ^ n" and "n \<le> 31"
  shows "sint v = uint v"
proof -
  have "(2::int) ^ n \<le> 2 ^ 31" using assms(2) by (intro power_increasing) simp_all
  then have "uint v < 2 ^ 31" using assms(1) by linarith
  moreover have "- (2 ^ 31) \<le> uint v"
  proof -
    have "- (2 ^ 31) \<le> (0::int)" by simp
    also have "0 \<le> uint v" by simp
    finally show ?thesis .
  qed
  ultimately have "signed_take_bit 31 (uint v) = uint v"
    by (simp only: signed_take_bit_int_eq_self_iff)
  then show ?thesis
    by (simp add: sint_uint)
qed

lemma sint_nonneg_uint:
  assumes "0 \<le> sint (v :: 32 word)"
  shows "uint v = sint v"
proof -
  have "sint v < 2 ^ 31" using sint_lt [of v] by simp
  then have "sint v < 2 ^ 32" by simp
  then have "take_bit 32 (sint v) = sint v" using assms
    by (simp only: take_bit_int_eq_self_iff)
  then show ?thesis by (simp add: uint_sint)
qed

lemma range_check:
  assumes "n \<le> 31"
  shows "(NOT (mask n) AND (v :: 32 word) \<noteq> 0) \<longleftrightarrow> \<not> (0 \<le> sint v \<and> sint v < 2 ^ n)"
proof (cases "uint v < 2 ^ n")
  case True
  then have "sint v = uint v" using assms by (rule uint_small_sint)
  with True show ?thesis
    by (simp add: not_mask_and_zero take_bit_self_uint)
next
  case False
  have "\<not> (0 \<le> sint v \<and> sint v < 2 ^ n)"
  proof
    assume a: "0 \<le> sint v \<and> sint v < 2 ^ n"
    then have "uint v = sint v" by (simp add: sint_nonneg_uint)
    with a False show False by simp
  qed
  with False show ?thesis
    by (simp add: not_mask_and_zero take_bit_self_uint)
qed

lemma range_check16:
  "(NOT 0xffff AND (v :: 32 word) \<noteq> 0) \<longleftrightarrow> \<not> (0 \<le> sint v \<and> sint v < 2 ^ 16)"
  using range_check [of 16 v] by (simp add: mask_eq_exp_minus_1)

lemma range_check8:
  "(NOT 0xff AND (v :: 32 word) \<noteq> 0) \<longleftrightarrow> \<not> (0 \<le> sint v \<and> sint v < 2 ^ 8)"
  using range_check [of 8 v] by (simp add: mask_eq_exp_minus_1)

subsection \<open>Deregistration\<close>

lemma deregister_loop_length [simp]: "length (deregister_loop h l) = length l"
  by (induction l) simp_all

lemma deregister_loop_nth:
  "i < length l \<Longrightarrow>
   deregister_loop h l ! i = (if h = handle (l ! i) then (l ! i)\<lparr>needs_free := 1\<rparr> else l ! i)"
  by (induction l arbitrary: i) (auto simp: nth_Cons split: nat.splits)

lemma deregister_loop_id:
  "\<forall>e\<in>set l. handle e \<noteq> h \<Longrightarrow> deregister_loop h l = l"
  by (induction l) auto

lemma set_hotplug_cbs_same [simp]: "set_hotplug_cbs k (hotplug_cbs (contexts s k)) s = s"
  by (simp add: set_hotplug_cbs_def)

lemma unlock_set_lock [simp]:
  "usbi_mutex_unlock m (set_hotplug_cbs k l (usbi_mutex_lock m s)) = set_hotplug_cbs k l s"
  by (simp add: usbi_mutex_unlock_def usbi_mutex_lock_def set_hotplug_cbs_def)

subsection \<open>The open handles\<close>

lemma disconnect_loop_length [simp]: "length (disconnect_loop d l) = length l"
  by (induction l) simp_all

lemma disconnect_loop_nth:
  "i < length l \<Longrightarrow>
   disconnect_loop d l ! i = (if d = handle_dev (l ! i) then usbi_handle_disconnect (l ! i) else l ! i)"
  by (induction l arbitrary: i) (auto simp: nth_Cons split: nat.splits)

lemma match_open_devs_left:
  "open_devs (contexts (usbi_hotplug_match d LIBUSB_HOTPLUG_EVENT_DEVICE_LEFT s) k) =
     (if k = dev_ctx (devices s d) then disconnect_loop d (open_devs (contexts s k))
      else open_devs (contexts s k))"
  by (simp add: usbi_hotplug_match_def Let_def)

lemma match_open_devs_other:
  "ev \<noteq> LIBUSB_HOTPLUG_EVENT_DEVICE_LEFT \<Longrightarrow>
   open_devs (contexts (usbi_hotplug_match d ev s) k) = open_devs (contexts s k)"
  by (auto simp: usbi_hotplug_match_def Let_def)

lemma arrived_not_left [simp]:
  "LIBUSB_HOTPLUG_EVENT_DEVICE_ARRIVED \<noteq> LIBUSB_HOTPLUG_EVENT_DEVICE_LEFT"
  by (simp add: LIBUSB_HOTPLUG_EVENT_DEVICE_ARRIVED_def LIBUSB_HOTPLUG_EVENT_DEVICE_LEFT_def)

subsection \<open>The dispatch pass\<close>

lemma match_loop_kept_subseq: "subseq (fst (hotplug_match_loop k d ev l s)) l"
  by (induction l arbitrary: s) (auto simp: Let_def)

lemma match_loop_kept_active:
  "e \<in> set (fst (hotplug_match_loop k d ev l s)) \<Longrightarrow> needs_free e = 0"
proof (induction l arbitrary: s)
  case Nil
  then show ?case by simp
next
  case (Cons a l)
  show ?case
  proof (cases "needs_free a = 0")
    case True
    with Cons show ?thesis
      by (auto simp: Let_def split: if_splits)
  next
    case False
    then have "fst (usbi_hotplug_match_cb d ev a (usbi_mutex_unlock (Hotplug_cbs_lock k) s)) \<noteq> 0"
      by (simp add: match_cb_pending)
    with Cons show ?thesis
      by (auto simp: Let_def)
  qed
qed

lemma new_calls_append: "calls s' = calls s @ cs \<Longrightarrow> new_calls s s' = cs"
  by (simp add: new_calls_def)

lemma match_calls:
  "\<exists>cs. calls (usbi_hotplug_match d ev s) = calls s @ cs \<and>
        map call_cb cs
          = filter (\<lambda>e. matches e d ev s) (hotplug_cbs (contexts s (dev_ctx (devices s d)))) \<and>
        (\<forall>c\<in>set cs. call_held c = held s)"
proof -
  let ?k = "dev_ctx (devices s d)"
  let ?s1 = "usbi_mutex_lock (Hotplug_cbs_lock ?k) s"
  let ?r = "hotplug_match_loop ?k d ev (hotplug_cbs (contexts s ?k)) ?s1"
  obtain cs where cs: "calls (snd ?r) = calls ?s1 @ cs"
      "map call_cb cs = filter (\<lambda>e. matches e d ev ?s1) (hotplug_cbs (contexts s ?k))"
      "\<forall>c\<in>set cs. call_held c = remove1 (Hotplug_cbs_lock ?k) (held ?s1)"
    using match_loop_calls [of ?k d ev "hotplug_cbs (contexts s ?k)" ?s1] by blast
  have "calls (usbi_hotplug_match d ev s) = calls (snd ?r)"
    by (simp add: usbi_hotplug_match_def Let_def)
  moreover have "\<And>e. matches e d ev ?s1 = matches e d ev s"
    by (simp add: matches_def)
  ultimately show ?thesis
    using cs by auto
qed

lemma match_new_calls:
  "map call_cb (new_calls s (usbi_hotplug_match d ev s))
     = filter (\<lambda>e. matches e d ev s) (hotplug_cbs (contexts s (dev_ctx (devices s d))))"
  "\<forall>c\<in>set (new_calls s (usbi_hotplug_match d ev s)). call_held c = held s"
  using match_calls [of d ev s] by (auto simp: new_calls_append)

lemma match_hotplug_cbs:
  "hotplug_cbs (contexts (usbi_hotplug_match d ev s) k) =
     (if k = dev_ctx (devices s d)
      then fst (hotplug_match_loop k d ev (hotplug_cbs (contexts s k))
                  (usbi_mutex_lock (Hotplug_cbs_lock k) s))
      else hotplug_cbs (contexts s k))"
  by (simp add: usbi_hotplug_match_def Let_def)

lemma match_frame [simp]:
  "devices (usbi_hotplug_match d ev s) = devices s"
  "handle_id (usbi_hotplug_match d ev s) = handle_id s"
  "memory (usbi_hotplug_match d ev s) = memory s"
  "cap_has_hotplug (usbi_hotplug_match d ev s) = cap_has_hotplug s"
  "usbi_default_context (usbi_hotplug_match d ev s) = usbi_default_context s"
  "usb_devs (contexts (usbi_hotplug_match d ev s) k) = usb_devs (contexts s k)"
  by (simp_all add: usbi_hotplug_match_def Let_def)

lemma match_held [simp]: "held (usbi_hotplug_match d ev s) = held s"
  by (simp add: usbi_hotplug_match_def Let_def match_loop_held)

subsection \<open>Registration\<close>

lemma enumerate_loop_frame [simp]:
  "contexts (enumerate_loop ds e s) = contexts s"
  "devices (enumerate_loop ds e s) = devices s"
  "handle_id (enumerate_loop ds e s) = handle_id s"
  "memory (enumerate_loop ds e s) = memory s"
  "held (enumerate_loop ds e s) = held s"
  "cap_has_hotplug (enumerate_loop ds e s) = cap_has_hotplug s"
  "usbi_default_context (enumerate_loop ds e s) = usbi_default_context s"
  by (induction ds arbitrary: s; simp)+

lemma enumerate_loop_calls:
  "\<exists>cs. calls (enumerate_loop ds e s) = calls s @ cs \<and>
        map call_dev cs = filter (\<lambda>d. matches e d LIBUSB_HOTPLUG_EVENT_DEVICE_ARRIVED s) ds \<and>
        (\<forall>c\<in>set cs. call_cb c = e \<and> call_event c = LIBUSB_HOTPLUG_EVENT_DEVICE_ARRIVED \<and>
                      call_held c = held s)"
proof (induction ds arbitrary: s)
  case Nil
  then show ?case by simp
next
  case (Cons d ds)
  define s1 where "s1 = snd (usbi_hotplug_match_cb d LIBUSB_HOTPLUG_EVENT_DEVICE_ARRIVED e s)"
  obtain cs where cs: "calls (enumerate_loop ds e s1) = calls s1 @ cs"
      "map call_dev cs = filter (\<lambda>d. matches e d LIBUSB_HOTPLUG_EVENT_DEVICE_ARRIVED s1) ds"
      "\<forall>c\<in>set cs. call_cb c = e \<and> call_event c = LIBUSB_HOTPLUG_EVENT_DEVICE_ARRIVED \<and>
                      call_held c = held s1"
    using Cons.IH [of s1] by blast
  have m: "\<And>x. matches e x LIBUSB_HOTPLUG_EVENT_DEVICE_ARRIVED s1
              = matches e x LIBUSB_HOTPLUG_EVENT_DEVICE_ARRIVED s"
    by (simp add: matches_def s1_def)
  have h: "held s1 = held s"
    by (simp add: s1_def)
  have c1: "calls s1 = calls s @ (if matches e d LIBUSB_HOTPLUG_EVENT_DEVICE_ARRIVED s
                then [\<lparr>call_cb = e, call_ctx = ctx_or_null (dev_ctx (devices s d)) s,
                       call_dev = d, call_event = LIBUSB_HOTPLUG_EVENT_DEVICE_ARRIVED,
                       call_user_data = user_data e, call_held = held s\<rparr>]
                else [])"
    by (simp add: s1_def match_cb_calls)
  have "enumerate_loop (d # ds) e s = enumerate_loop ds e s1"
    by (simp add: s1_def)
  then show ?case
    using cs c1 by (auto simp: m h)
qed

lemma valid_params_check:
  "valid_params v p dc f \<longleftrightarrow>
     \<not> ((LIBUSB_HOTPLUG_MATCH_ANY \<noteq> v \<and> NOT 0xffff AND v \<noteq> 0) \<or>
        (LIBUSB_HOTPLUG_MATCH_ANY \<noteq> p \<and> NOT 0xffff AND p \<noteq> 0) \<or>
        (LIBUSB_HOTPLUG_MATCH_ANY \<noteq> dc \<and> NOT 0xff AND dc \<noteq> 0) \<or> f = None)"
  using range_check16 [of v] range_check16 [of p] range_check8 [of dc]
  by (auto simp: valid_params_def out_of_domain_def)

text \<open>What a successful registration does, field by field.\<close>

lemma register_success:
  fixes s :: "'u state" and evs fl v p dc :: c_int and ud :: nat
    and f :: "'u libusb_hotplug_callback_fn option"
  assumes "cap_has_hotplug s" and "valid_params v p dc f" and "ok"
    and "USBI_GET_CONTEXT c s = Some k"
  defines "e \<equiv> registered_entry k evs fl v p dc (the f) ud s"
  shows "\<exists>s' cs. libusb_hotplug_register_callback c evs fl v p dc f ud h ok s
                  = Some (LIBUSB_SUCCESS, s') \<and>
          contexts s' = (contexts s)(k := (contexts s k)\<lparr>hotplug_cbs := e # hotplug_cbs (contexts s k)\<rparr>) \<and>
          handle_id s' = handle_id s + 1 \<and>
          memory s' = (case h of None \<Rightarrow> memory s | Some a \<Rightarrow> (memory s)(a := handle_id s)) \<and>
          held s' = held s \<and> devices s' = devices s \<and>
          cap_has_hotplug s' = cap_has_hotplug s \<and>
          usbi_default_context s' = usbi_default_context s \<and>
          calls s' = calls s @ cs \<and>
          (\<forall>x\<in>set cs. call_cb x = e \<and> call_event x = LIBUSB_HOTPLUG_EVENT_DEVICE_ARRIVED \<and>
               call_held x = Usb_devs_lock k # Hotplug_cbs_lock k # held s) \<and>
          map call_dev cs =
            (if fl AND LIBUSB_HOTPLUG_ENUMERATE \<noteq> 0
             then filter (\<lambda>d. matches e d LIBUSB_HOTPLUG_EVENT_DEVICE_ARRIVED s)
                    (usb_devs (contexts s k))
             else [])"
proof -
  let ?s1 = "usbi_mutex_lock (Hotplug_cbs_lock k) s"
  let ?s2 = "?s1\<lparr>handle_id := handle_id ?s1 + 1\<rparr>"
  let ?s3 = "set_hotplug_cbs k (list_add e (hotplug_cbs (contexts ?s2 k))) ?s2"
  let ?s4 = "if fl AND LIBUSB_HOTPLUG_ENUMERATE \<noteq> 0
             then usbi_mutex_unlock (Usb_devs_lock k)
                    (enumerate_loop (usb_devs (contexts ?s3 k)) e
                       (usbi_mutex_lock (Usb_devs_lock k) ?s3))
             else ?s3"
  let ?s5 = "usbi_mutex_unlock (Hotplug_cbs_lock k) ?s4"
  let ?s6 = "case h of None \<Rightarrow> ?s5 | Some a \<Rightarrow> ?s5\<lparr>memory := (memory ?s5)(a := handle e)\<rparr>"
  have chk: "\<not> ((LIBUSB_HOTPLUG_MATCH_ANY \<noteq> v \<and> NOT 0xffff AND v \<noteq> 0) \<or>
        (LIBUSB_HOTPLUG_MATCH_ANY \<noteq> p \<and> NOT 0xffff AND p \<noteq> 0) \<or>
        (LIBUSB_HOTPLUG_MATCH_ANY \<noteq> dc \<and> NOT 0xff AND dc \<noteq> 0) \<or> f = None)"
    using assms(2) valid_params_check [of v p dc f] by blast
  have r: "libusb_hotplug_register_callback c evs fl v p dc f ud h ok s = Some (LIBUSB_SUCCESS, ?s6)"
    unfolding libusb_hotplug_register_callback_def
    by (simp only: if_not_P [OF chk] assms(1,3,4) not_True_eq_False if_False simp_thms
          option.case Let_def e_def registered_entry_def
          libusb_hotplug_callback.simps lock_frame)
  define s3 where "s3 = ?s3"
  define s3l where "s3l = usbi_mutex_lock (Usb_devs_lock k) s3"
  define s4 where "s4 = (if fl AND LIBUSB_HOTPLUG_ENUMERATE \<noteq> 0
             then usbi_mutex_unlock (Usb_devs_lock k)
                    (enumerate_loop (usb_devs (contexts s3 k)) e s3l)
             else s3)"
  define s5 where "s5 = usbi_mutex_unlock (Hotplug_cbs_lock k) s4"
  define s6 where "s6 = (case h of None \<Rightarrow> s5 | Some a \<Rightarrow> s5\<lparr>memory := (memory s5)(a := handle e)\<rparr>)"
  have r6: "libusb_hotplug_register_callback c evs fl v p dc f ud h ok s = Some (LIBUSB_SUCCESS, s6)"
    by (simp only: r s6_def s5_def s4_def s3l_def s3_def)
  have f3: "contexts s3 = (contexts s)(k := (contexts s k)\<lparr>hotplug_cbs := e # hotplug_cbs (contexts s k)\<rparr>)"
      "handle_id s3 = handle_id s + 1" "memory s3 = memory s"
      "held s3 = Hotplug_cbs_lock k # held s" "devices s3 = devices s"
      "cap_has_hotplug s3 = cap_has_hotplug s"
      "usbi_default_context s3 = usbi_default_context s" "calls s3 = calls s"
    by (simp_all add: s3_def list_add_def)
  obtain cs where cs: "calls (enumerate_loop (usb_devs (contexts s3 k)) e s3l) = calls s3l @ cs"
      "map call_dev cs = filter (\<lambda>d. matches e d LIBUSB_HOTPLUG_EVENT_DEVICE_ARRIVED s3l)
                           (usb_devs (contexts s3 k))"
      "\<forall>c\<in>set cs. call_cb c = e \<and> call_event c = LIBUSB_HOTPLUG_EVENT_DEVICE_ARRIVED \<and>
                      call_held c = held s3l"
    using enumerate_loop_calls [of "usb_devs (contexts s3 k)" e s3l] by blast
  have m: "\<And>x. matches e x LIBUSB_HOTPLUG_EVENT_DEVICE_ARRIVED s3l
              = matches e x LIBUSB_HOTPLUG_EVENT_DEVICE_ARRIVED s"
    by (simp add: matches_def s3l_def f3)
  have he: "handle e = handle_id s"
    by (simp add: e_def registered_entry_def)
  define cs' where "cs' = (if fl AND LIBUSB_HOTPLUG_ENUMERATE \<noteq> 0 then cs else [])"
  have f4: "contexts s4 = contexts s3" "handle_id s4 = handle_id s3" "memory s4 = memory s3"
      "held s4 = held s3" "devices s4 = devices s3"
      "cap_has_hotplug s4 = cap_has_hotplug s3"
      "usbi_default_context s4 = usbi_default_context s3"
    by (simp_all add: s4_def s3l_def)
  have c4: "calls s4 = calls s @ cs'"
    using cs(1) by (simp add: s4_def cs'_def s3l_def f3)
  have f5: "contexts s5 = contexts s3" "handle_id s5 = handle_id s3" "memory s5 = memory s3"
      "held s5 = held s" "devices s5 = devices s3"
      "cap_has_hotplug s5 = cap_has_hotplug s3"
      "usbi_default_context s5 = usbi_default_context s3" "calls s5 = calls s @ cs'"
    by (simp_all add: s5_def f4 c4 f3)
  have f6: "contexts s6 = (contexts s)(k := (contexts s k)\<lparr>hotplug_cbs := e # hotplug_cbs (contexts s k)\<rparr>)"
      "handle_id s6 = handle_id s + 1"
      "memory s6 = (case h of None \<Rightarrow> memory s | Some a \<Rightarrow> (memory s)(a := handle_id s))"
      "held s6 = held s" "devices s6 = devices s"
      "cap_has_hotplug s6 = cap_has_hotplug s"
      "usbi_default_context s6 = usbi_default_context s"
      "calls s6 = calls s @ cs'"
    by (simp_all add: s6_def f5 f3 he split: option.split)
  have p1: "\<forall>x\<in>set cs'. call_cb x = e \<and> call_event x = LIBUSB_HOTPLUG_EVENT_DEVICE_ARRIVED \<and>
               call_held x = Usb_devs_lock k # Hotplug_cbs_lock k # held s"
    using cs(3) by (simp add: cs'_def s3l_def f3)
  have p2: "map call_dev cs' =
            (if fl AND LIBUSB_HOTPLUG_ENUMERATE \<noteq> 0
             then filter (\<lambda>d. matches e d LIBUSB_HOTPLUG_EVENT_DEVICE_ARRIVED s)
                    (usb_devs (contexts s k))
             else [])"
    using cs(2) by (simp add: m cs'_def f3)
  show ?thesis
    using r6 f6 p1 p2 by blast
qed

lemma register_Some:
  assumes "libusb_hotplug_register_callback c evs fl v p dc f ud h ok s = Some (rc, s')"
  shows "(rc \<noteq> LIBUSB_SUCCESS \<and> s' = s) \<or>
         (rc = LIBUSB_SUCCESS \<and> cap_has_hotplug s \<and> valid_params v p dc f \<and> ok \<and>
          (\<exists>k. USBI_GET_CONTEXT c s = Some k))"
proof (cases "cap_has_hotplug s \<and> valid_params v p dc f \<and> ok")
  case True
  then show ?thesis
  proof (cases "USBI_GET_CONTEXT c s")
    case None
    have chk: "\<not> ((LIBUSB_HOTPLUG_MATCH_ANY \<noteq> v \<and> NOT 0xffff AND v \<noteq> 0) \<or>
        (LIBUSB_HOTPLUG_MATCH_ANY \<noteq> p \<and> NOT 0xffff AND p \<noteq> 0) \<or>
        (LIBUSB_HOTPLUG_MATCH_ANY \<noteq> dc \<and> NOT 0xff AND dc \<noteq> 0) \<or> f = None)"
      using True valid_params_check [of v p dc f] by blast
    have "libusb_hotplug_register_callback c evs fl v p dc f ud h ok s = None"
      unfolding libusb_hotplug_register_callback_def
      using True by (simp only: if_not_P [OF chk] None not_True_eq_False if_False simp_thms
          option.case)
    with assms show ?thesis by simp
  next
    case (Some k)
    obtain s2 where "libusb_hotplug_register_callback c evs fl v p dc f ud h ok s
                  = Some (LIBUSB_SUCCESS, s2)"
      using register_success [of s v p dc f ok c k evs fl ud h] True Some by blast
    with assms True Some show ?thesis by auto
  qed
next
  case False
  have e: "LIBUSB_ERROR_NOT_SUPPORTED \<noteq> LIBUSB_SUCCESS" "LIBUSB_ERROR_INVALID_PARAM \<noteq> LIBUSB_SUCCESS"
    "LIBUSB_ERROR_NO_MEM \<noteq> LIBUSB_SUCCESS"
    by (simp_all add: LIBUSB_ERROR_NOT_SUPPORTED_def LIBUSB_ERROR_INVALID_PARAM_def
          LIBUSB_ERROR_NO_MEM_def LIBUSB_SUCCESS_def)
  consider "\<not> cap_has_hotplug s" | "cap_has_hotplug s" "\<not> valid_params v p dc f"
    | "cap_has_hotplug s" "valid_params v p dc f" "\<not> ok"
    using False by blast
  then show ?thesis
  proof cases
    case 1
    then have "libusb_hotplug_register_callback c evs fl v p dc f ud h ok s
                 = Some (LIBUSB_ERROR_NOT_SUPPORTED, s)"
      by (simp add: libusb_hotplug_register_callback_def)
    with assms e show ?thesis by simp
  next
    case 2
    then have chk: "(LIBUSB_HOTPLUG_MATCH_ANY \<noteq> v \<and> NOT 0xffff AND v \<noteq> 0) \<or>
        (LIBUSB_HOTPLUG_MATCH_ANY \<noteq> p \<and> NOT 0xffff AND p \<noteq> 0) \<or>
        (LIBUSB_HOTPLUG_MATCH_ANY \<noteq> dc \<and> NOT 0xff AND dc \<noteq> 0) \<or> f = None"
      using valid_params_check [of v p dc f] by blast
    have "libusb_hotplug_register_callback c evs fl v p dc f ud h ok s
                 = Some (LIBUSB_ERROR_INVALID_PARAM, s)"
      unfolding libusb_hotplug_register_callback_def
      using 2(1) by (simp only: if_P [OF chk] not_True_eq_False if_False simp_thms)
    with assms e show ?thesis by simp
  next
    case 3
    then have chk: "\<not> ((LIBUSB_HOTPLUG_MATCH_ANY \<noteq> v \<and> NOT 0xffff AND v \<noteq> 0) \<or>
        (LIBUSB_HOTPLUG_MATCH_ANY \<noteq> p \<and> NOT 0xffff AND p \<noteq> 0) \<or>
        (LIBUSB_HOTPLUG_MATCH_ANY \<noteq> dc \<and> NOT 0xff AND dc \<noteq> 0) \<or> f = None)"
      using valid_params_check [of v p dc f] by blast
    have "libusb_hotplug_register_callback c evs fl v p dc f ud h ok s
                 = Some (LIBUSB_ERROR_NO_MEM, s)"
      unfolding libusb_hotplug_register_callback_def
      using 3 by (simp only: if_not_P [OF chk] not_True_eq_False if_False if_True simp_thms)
    with assms e show ?thesis by simp
  qed
qed

text \<open>The definitions that the evaluation of a concrete run unfolds.\<close>

lemmas eval_defs =
  libusb_hotplug_register_callback_def libusb_hotplug_deregister_callback_def
  usbi_hotplug_match_def usbi_hotplug_match_cb_def usbi_hotplug_deregister_all_def
  invoke_cb_def USBI_GET_CONTEXT_def list_add_def set_hotplug_cbs_def set_open_devs_def
  usbi_mutex_lock_def usbi_mutex_unlock_def usbi_handle_disconnect_def new_calls_def
  LIBUSB_SUCCESS_def LIBUSB_ERROR_INVALID_PARAM_def LIBUSB_ERROR_NO_MEM_def
  LIBUSB_ERROR_NOT_SUPPORTED_def LIBUSB_HOTPLUG_EVENT_DEVICE_ARRIVED_def
  LIBUSB_HOTPLUG_EVENT_DEVICE_LEFT_def LIBUSB_HOTPLUG_ENUMERATE_def
  LIBUSB_HOTPLUG_MATCH_ANY_def Let_def

lemmas example_defs =
  example_state_def example_contexts_def example_devices_def example_entry_def
  example_registered_def count_callback_def detach_callback_def

subsection \<open>The lifecycle flag\<close>

lemma deregister_loop_pending:
  "list_all2 (\<lambda>a b. same_entry a b \<and> (needs_free a \<noteq> 0 \<longrightarrow> needs_free b \<noteq> 0))
     l (deregister_loop h l)"
  by (induction l) (simp_all add: same_entry_def)

lemma same_list_pending:
  "list_all2 (\<lambda>a b. same_entry a b \<and> (needs_free a \<noteq> 0 \<longrightarrow> needs_free b \<noteq> 0)) l l"
  by (rule list_all2_refl) (simp add: same_entry_def)

lemma deregister_Some:
  assumes "libusb_hotplug_deregister_callback c h s = Some s'"
  shows "calls s' = calls s \<and> handle_id s' = handle_id s \<and>
         (\<forall>k. hotplug_cbs (contexts s' k) = hotplug_cbs (contexts s k) \<or>
              hotplug_cbs (contexts s' k) = deregister_loop h (hotplug_cbs (contexts s k)))"
  using assms
  by (auto simp: libusb_hotplug_deregister_callback_def Let_def split: if_splits option.splits)

lemma deregister_all_loop_nil [simp]: "deregister_all_loop l = []"
  by (induction l) simp_all

lemma deregister_all_frame [simp]:
  "calls (usbi_hotplug_deregister_all k s) = calls s"
  "handle_id (usbi_hotplug_deregister_all k s) = handle_id s"
  "hotplug_cbs (contexts (usbi_hotplug_deregister_all k s) k') =
     (if k' = k then [] else hotplug_cbs (contexts s k'))"
  by (simp_all add: usbi_hotplug_deregister_all_def Let_def)

lemma register_pending:
  assumes "libusb_hotplug_register_callback c evs fl v p dc f ud h ok s = Some (rc, s')"
  shows "(\<forall>x\<in>set (new_calls s s'). needs_free (call_cb x) = 0) \<and>
         (\<forall>k. \<exists>new. hotplug_cbs (contexts s' k) = new @ hotplug_cbs (contexts s k) \<and>
                    (\<forall>e\<in>set new. needs_free e = 0))"
proof -
  consider "s' = s"
    | k where "cap_has_hotplug s" "valid_params v p dc f" "ok" "USBI_GET_CONTEXT c s = Some k"
    using register_Some [OF assms] by blast
  then show ?thesis
  proof cases
    case 1
    then show ?thesis by (simp add: new_calls_def)
  next
    case 2
    let ?e = "registered_entry k evs fl v p dc (the f) ud s"
    obtain s2 cs where s2: "libusb_hotplug_register_callback c evs fl v p dc f ud h ok s
                  = Some (LIBUSB_SUCCESS, s2)"
      "contexts s2 = (contexts s)(k := (contexts s k)\<lparr>hotplug_cbs := ?e # hotplug_cbs (contexts s k)\<rparr>)"
      "calls s2 = calls s @ cs"
      "\<forall>x\<in>set cs. call_cb x = ?e \<and> call_event x = LIBUSB_HOTPLUG_EVENT_DEVICE_ARRIVED \<and>
               call_held x = Usb_devs_lock k # Hotplug_cbs_lock k # held s"
      using register_success [OF 2(1,2,3,4), of evs fl ud h] by blast
    have eq: "s' = s2" using assms s2(1) by simp
    have n: "needs_free ?e = 0" by (simp add: registered_entry_def)
    have a: "\<forall>x\<in>set (new_calls s s'). needs_free (call_cb x) = 0"
      using s2(3,4) n by (simp add: eq new_calls_append)
    have b: "\<exists>new. hotplug_cbs (contexts s' k') = new @ hotplug_cbs (contexts s k') \<and>
                    (\<forall>e\<in>set new. needs_free e = 0)" for k'
    proof (cases "k' = k")
      case True
      then show ?thesis
        using n by (intro exI [of _ "[?e]"]) (simp add: eq s2(2))
    next
      case False
      then show ?thesis
        by (intro exI [of _ "[]"]) (simp add: eq s2(2))
    qed
    from a b show ?thesis by blast
  qed
qed

subsection \<open>Two registrations on the concrete process\<close>

lemma example_register_first:
  "libusb_hotplug_register_callback None 3 0 0x045a 0x5005 LIBUSB_HOTPLUG_MATCH_ANY
     (Some count_callback) 0 None True example_state = Some (LIBUSB_SUCCESS, example_once)"
  by (simp add: eval_defs example_defs example_once_def)

lemma example_register_second:
  "libusb_hotplug_register_callback None 3 0 0x045a 0x5005 LIBUSB_HOTPLUG_MATCH_ANY
     (Some count_callback) 0 None True example_once = Some (LIBUSB_SUCCESS, example_registered)"
  by (simp add: eval_defs example_defs example_once_def)

lemma example_match_registered:
  "map (\<lambda>x. handle (call_cb x))
     (calls (usbi_hotplug_match 10 LIBUSB_HOTPLUG_EVENT_DEVICE_ARRIVED example_registered))
     = [2, 1]"
  by (simp add: eval_defs example_defs)

lemma example_heads:
  "USBI_GET_CONTEXT None example_state = Some 1"
  "USBI_GET_CONTEXT None example_once = Some 1"
  "handle (hd (hotplug_cbs (contexts example_once (Suc 0)))) = 1"
  "handle (hd (hotplug_cbs (contexts example_registered (Suc 0)))) = 2"
  by (simp_all add: USBI_GET_CONTEXT_def example_defs example_once_def)

subsection \<open>The counter of handle ids\<close>

lemma ids_from_0 [simp]: "ids_from h 0 = []"
  by (simp add: ids_from_def)

lemma length_ids_from [simp]: "length (ids_from h n) = n"
  by (simp add: ids_from_def)

lemma nth_ids_from: "i < n \<Longrightarrow> ids_from h n ! i = h + of_nat i"
  by (simp add: ids_from_def)

lemma step_counter:
  assumes "step op (ids0, s) = Some (ids1, s1)"
  shows "(ids1 = ids0 \<and> handle_id s1 = handle_id s) \<or>
         (ids1 = ids0 @ [handle_id s] \<and> handle_id s1 = handle_id s + 1)"
proof (cases op)
  case (Register c evs fl v p dc f ud h ok)
  obtain rc s' where r: "libusb_hotplug_register_callback c evs fl v p dc f ud h ok s = Some (rc, s')"
    using assms Register by (auto split: option.splits)
  have res: "ids1 = (if rc = LIBUSB_SUCCESS
                then ids0 @ [handle (hd (hotplug_cbs (contexts s' (the (USBI_GET_CONTEXT c s)))))]
                else ids0)" "s1 = s'"
    using assms Register r by simp_all
  from register_Some [OF r] show ?thesis
  proof
    assume "rc \<noteq> LIBUSB_SUCCESS \<and> s' = s"
    then show ?thesis using res by simp
  next
    assume a: "rc = LIBUSB_SUCCESS \<and> cap_has_hotplug s \<and> valid_params v p dc f \<and> ok \<and>
          (\<exists>k. USBI_GET_CONTEXT c s = Some k)"
    then obtain k where k: "USBI_GET_CONTEXT c s = Some k" by blast
    obtain s2 where s2: "libusb_hotplug_register_callback c evs fl v p dc f ud h ok s
                  = Some (LIBUSB_SUCCESS, s2)"
      "contexts s2 = (contexts s)(k := (contexts s k)
         \<lparr>hotplug_cbs := registered_entry k evs fl v p dc (the f) ud s # hotplug_cbs (contexts s k)\<rparr>)"
      "handle_id s2 = handle_id s + 1"
      using register_success [of s v p dc f ok c k evs fl ud h] a k by blast
    have "s' = s2" using r s2(1) by simp
    then have "ids1 = ids0 @ [handle_id s] \<and> handle_id s1 = handle_id s + 1"
      using res a k s2(2,3) by (simp add: registered_entry_def)
    then show ?thesis ..
  qed
next
  case (Deregister c h)
  then obtain s' where "libusb_hotplug_deregister_callback c h s = Some s'" "ids1 = ids0" "s1 = s'"
    using assms by (auto split: option.splits)
  then show ?thesis
    using deregister_Some [of c h s s'] by simp
next
  case (Match d ev)
  then show ?thesis using assms by auto
next
  case (Deregister_all k)
  then show ?thesis using assms by auto
qed

lemma run_counter:
  "run ops (ids0, s) = Some (ids, s') \<Longrightarrow>
   \<exists>n. ids = ids0 @ ids_from (handle_id s) n \<and> handle_id s' = handle_id s + of_nat n"
proof (induction ops arbitrary: ids0 s)
  case Nil
  then show ?case by (intro exI [of _ 0]) simp
next
  case (Cons op ops)
  then obtain ids1 s1 where st: "step op (ids0, s) = Some (ids1, s1)"
      and r: "run ops (ids1, s1) = Some (ids, s')"
    by (auto split: option.splits)
  obtain n where n: "ids = ids1 @ ids_from (handle_id s1) n"
      "handle_id s' = handle_id s1 + of_nat n"
    using Cons.IH [OF r] by blast
  from step_counter [OF st] show ?case
  proof
    assume "ids1 = ids0 \<and> handle_id s1 = handle_id s"
    then show ?thesis using n by auto
  next
    assume a: "ids1 = ids0 @ [handle_id s] \<and> handle_id s1 = handle_id s + 1"
    have "ids_from (handle_id s) (Suc n) = handle_id s # ids_from (handle_id s + 1) n"
      by (simp add: ids_from_def upt_conv_Cons add.assoc del: upt_Suc flip: map_Suc_upt)
    then show ?thesis
      using n a by (intro exI [of _ "Suc n"]) (simp add: add.assoc)
  qed
qed

lemma sint_add_nat:
  assumes "sint (h :: c_int) + int i < 2 ^ 31"
  shows "sint (h + of_nat i) = sint h + int i"
proof -
  have lo: "- (2 ^ 31) \<le> sint h" using sint_ge [of h] by simp
  have "sint (h + of_nat i) = signed_take_bit 31 (sint h + sint (of_nat i :: c_int))"
    by (simp add: sint_word_add)
  also have "sint (of_nat i :: c_int) = signed_take_bit 31 (int i)"
    by (simp add: signed_of_nat)
  also have "signed_take_bit 31 (sint h + signed_take_bit 31 (int i))
      = signed_take_bit 31 (signed_take_bit 31 (sint h)
          + signed_take_bit 31 (signed_take_bit 31 (int i)))"
    by (simp only: signed_take_bit_add)
  also have "\<dots> = signed_take_bit 31 (signed_take_bit 31 (sint h) + signed_take_bit 31 (int i))"
    by simp
  also have "\<dots> = signed_take_bit 31 (sint h + int i)"
    by (simp only: signed_take_bit_add)
  also have "\<dots> = sint h + int i"
  proof -
    have "- (2 ^ 31) \<le> sint h + int i" using lo by simp
    then show ?thesis using assms
      by (simp only: signed_take_bit_int_eq_self_iff)
  qed
  finally show ?thesis .
qed

lemma ids_from_sint:
  assumes "sint h + int n \<le> 2 ^ 31" and "i < n"
  shows "sint (ids_from h n ! i) = sint h + int i"
proof -
  have "sint h + int i < 2 ^ 31" using assms by linarith
  then show ?thesis using assms(2) by (simp add: nth_ids_from sint_add_nat)
qed

lemma ids_from_increasing:
  assumes "sint h + int n \<le> 2 ^ 31"
  shows "sorted_wrt (\<lambda>a b. sint a < sint b) (ids_from h n)"
  unfolding sorted_wrt_iff_nth_less
proof (intro allI impI)
  fix i j assume "i < j" "j < length (ids_from h n)"
  then have "i < n" "j < n" by simp_all
  then show "sint (ids_from h n ! i) < sint (ids_from h n ! j)"
    using ids_from_sint [OF assms] \<open>i < j\<close> by simp
qed

lemma ids_from_distinct:
  assumes "sint h + int n \<le> 2 ^ 31"
  shows "distinct (ids_from h n)"
  unfolding distinct_conv_nth
proof (intro allI impI)
  fix i j assume a: "i < length (ids_from h n)" "j < length (ids_from h n)" "i \<noteq> j"
  then have "sint (ids_from h n ! i) \<noteq> sint (ids_from h n ! j)"
    using ids_from_sint [OF assms] by simp
  then show "ids_from h n ! i \<noteq> ids_from h n ! j" by auto
qed

text \<open>Registrations in the default context succeed one after the other.\<close>

lemma run_registrations:
  assumes "cap_has_hotplug s" and "usbi_default_context s = Some k"
    and "valid_params v p dc (Some fn)"
  shows "\<exists>ids s'. run (replicate n (Register None evs fl v p dc (Some fn) ud None True)) (ids0, s)
                    = Some (ids, s') \<and> handle_id s' = handle_id s + of_nat n"
  using assms(1,2)
proof (induction n arbitrary: ids0 s)
  case 0
  then show ?case by simp
next
  case (Suc n)
  have k: "USBI_GET_CONTEXT None s = Some k"
    using Suc.prems(2) by (simp add: USBI_GET_CONTEXT_def)
  obtain s2 where s2: "libusb_hotplug_register_callback None evs fl v p dc (Some fn) ud None True s
                  = Some (LIBUSB_SUCCESS, s2)"
      "handle_id s2 = handle_id s + 1" "cap_has_hotplug s2 = cap_has_hotplug s"
      "usbi_default_context s2 = usbi_default_context s"
    using register_success [of s v p dc "Some fn" True None k evs fl ud None] Suc.prems(1) assms(3) k
    by auto
  obtain ids1 where st: "step (Register None evs fl v p dc (Some fn) ud None True) (ids0, s)
      = Some (ids1, s2)"
    using s2(1) by simp
  obtain ids s' where r: "run (replicate n (Register None evs fl v p dc (Some fn) ud None True))
      (ids1, s2) = Some (ids, s')" "handle_id s' = handle_id s2 + of_nat n"
    using Suc.IH [of s2 ids1] Suc.prems s2(3,4) by auto
  show ?case
    using st r s2(2) by (intro exI [of _ ids] exI [of _ s']) (simp add: add.assoc)
qed

text \<open>The counter reaches \<^verbatim>\<open>INT_MAX\<close> from its initial value 1.\<close>

lemma counter_reaches_max:
  "\<exists>ids s'. run (replicate 2147483646
                  (Register None 3 0 0x045a 0x5005 LIBUSB_HOTPLUG_MATCH_ANY (Some count_callback)
                     0 None True)) ([], example_state) = Some (ids, s') \<and>
            handle_id s' = handle_id example_max"
proof -
  have "valid_params 0x045a 0x5005 LIBUSB_HOTPLUG_MATCH_ANY (Some count_callback)"
    by (simp add: valid_params_def out_of_domain_def LIBUSB_HOTPLUG_MATCH_ANY_def)
  moreover have "cap_has_hotplug example_state" "usbi_default_context example_state = Some 1"
    by (simp_all add: example_state_def)
  ultimately obtain ids s' where "run (replicate 2147483646
                  (Register None 3 0 0x045a 0x5005 LIBUSB_HOTPLUG_MATCH_ANY (Some count_callback)
                     0 None True)) ([], example_state) = Some (ids, s')"
      "handle_id s' = handle_id example_state + of_nat 2147483646"
    using run_registrations [of example_state 1 "0x045a" "0x5005" LIBUSB_HOTPLUG_MATCH_ANY
        count_callback 2147483646 3 0 0 "[]"]
    by blast
  moreover have "handle_id example_state + of_nat 2147483646 = handle_id example_max"
    by (simp add: example_state_def example_max_def)
  ultimately show ?thesis by auto
qed

subsection \<open>A registration with enumeration on the concrete process\<close>

lemma example_register_enumerate:
  "libusb_hotplug_register_callback None 3 LIBUSB_HOTPLUG_ENUMERATE 0x045a 0x5005
     LIBUSB_HOTPLUG_MATCH_ANY (Some detach_callback) 0 None True example_state
   = Some (LIBUSB_SUCCESS, example_enumerated)"
  by (simp add: eval_defs example_defs example_enumerated_def)

section \<open>The claims\<close>

subsection \<open>C1: the decision of the Matcher\<close>

text \<open>
  Claim C1. For every entry, device and event, \<^verbatim>\<open>usbi_hotplug_match_cb\<close> decides in this
  order. An entry that is pending removal (\<open>needs_free\<close> nonzero) gives REMOVE, and the state,
  with its log of invocations, is unchanged: the callback is not invoked. Otherwise an
  event outside the entry's event mask gives NO_MATCH. Otherwise a vendor, product or class
  filter that is not ANY and differs from the device's field gives NO_MATCH. Otherwise the
  callback is invoked once, with NULL for the default context and the device's context
  otherwise, the device, the event and the entry's user data; a nonzero return gives
  REMOVE and a zero return MATCHED_KEEP.
\<close>

theorem matcher_decision:
  "(let r = usbi_hotplug_match_cb d ev e s;
        dd = device_descriptor (devices s d);
        c = ctx_or_null (dev_ctx (devices s d)) s;
        res = cb e c d ev (user_data e) (user s)
    in (needs_free e \<noteq> 0 \<longrightarrow> r = (1, s) \<and> outcome_of s r = OUTCOME_REMOVE) \<and>
       (needs_free e = 0 \<and> events e AND ev = 0 \<longrightarrow>
          r = (0, s) \<and> outcome_of s r = OUTCOME_NO_MATCH) \<and>
       (needs_free e = 0 \<and> events e AND ev \<noteq> 0 \<and> filter_differs e dd \<longrightarrow>
          r = (0, s) \<and> outcome_of s r = OUTCOME_NO_MATCH) \<and>
       (needs_free e = 0 \<and> events e AND ev \<noteq> 0 \<and> \<not> filter_differs e dd \<longrightarrow>
          r = (fst res,
               s\<lparr>user := snd res,
                 calls := calls s @ [\<lparr>call_cb = e, call_ctx = c, call_dev = d, call_event = ev,
                                      call_user_data = user_data e, call_held = held s\<rparr>]\<rparr>) \<and>
          (fst res \<noteq> 0 \<longrightarrow> outcome_of s r = OUTCOME_REMOVE) \<and>
          (fst res = 0 \<longrightarrow> outcome_of s r = OUTCOME_MATCHED_KEEP)))"
  by (auto simp: usbi_hotplug_match_cb_def invoke_cb_def outcome_of_def filter_differs_def
        ctx_or_null_def Let_def)

text \<open>The five branches of C1 on the concrete process.\<close>

theorem matcher_decision_witness:
  "needs_free (example_entry 1 1) \<noteq> 0 \<and>
   usbi_hotplug_match_cb 10 1 (example_entry 1 1) example_state = (1, example_state) \<and>
   outcome_of example_state (usbi_hotplug_match_cb 10 1 (example_entry 1 1) example_state)
     = OUTCOME_REMOVE \<and>
   events ((example_entry 1 0)\<lparr>events := 1\<rparr>) AND 2 = 0 \<and>
   outcome_of example_state
     (usbi_hotplug_match_cb 10 2 ((example_entry 1 0)\<lparr>events := 1\<rparr>) example_state)
     = OUTCOME_NO_MATCH \<and>
   filter_differs (example_entry 1 0) (device_descriptor (devices example_state 11)) \<and>
   outcome_of example_state (usbi_hotplug_match_cb 11 1 (example_entry 1 0) example_state)
     = OUTCOME_NO_MATCH \<and>
   \<not> filter_differs (example_entry 1 0) (device_descriptor (devices example_state 10)) \<and>
   outcome_of example_state (usbi_hotplug_match_cb 10 1 (example_entry 1 0) example_state)
     = OUTCOME_MATCHED_KEEP \<and>
   map call_ctx (calls (snd (usbi_hotplug_match_cb 10 1 (example_entry 1 0) example_state)))
     = [None] \<and>
   outcome_of example_state
     (usbi_hotplug_match_cb 10 1 ((example_entry 1 0)\<lparr>cb := detach_callback\<rparr>) example_state)
     = OUTCOME_REMOVE"
  using matcher_decision [of 10 1 "example_entry 1 1" example_state]
    matcher_decision [of 10 2 "(example_entry 1 0)\<lparr>events := 1\<rparr>" example_state]
    matcher_decision [of 11 1 "example_entry 1 0" example_state]
    matcher_decision [of 10 1 "example_entry 1 0" example_state]
    matcher_decision [of 10 1 "(example_entry 1 0)\<lparr>cb := detach_callback\<rparr>" example_state]
  by (simp add: Let_def example_entry_def example_state_def example_devices_def
        filter_differs_def ctx_or_null_def count_callback_def detach_callback_def
        LIBUSB_HOTPLUG_MATCH_ANY_def outcome_of_def)

subsection \<open>C2: an entry pending removal\<close>

text \<open>
  Claim C2. No operation invokes the callback of an entry whose state is PENDING_REMOVAL
  (\<open>needs_free\<close> nonzero), and no operation brings such an entry back: it stays pending
  until it is unlinked. In detail, from every state: a dispatch pass, a registration (with
  its enumeration) and a deregistration add to the log only invocations of entries with
  \<open>needs_free = 0\<close> (a deregistration adds none). After a dispatch pass no pending entry
  is left in the registry of the device's context, and every registry is a subsequence
  of what it was. A registration only puts active entries in front of a registry and
  leaves the old entries as they were. A deregistration keeps every entry in place, the
  same up to its flag, and a pending entry pending. \<^verbatim>\<open>usbi_hotplug_deregister_all\<close>
  invokes nothing and empties the registry of its context.
\<close>

theorem pending_never_invoked:
  "(\<forall>x\<in>set (new_calls s (usbi_hotplug_match d ev s)). needs_free (call_cb x) = 0) \<and>
   (\<forall>e\<in>set (hotplug_cbs (contexts (usbi_hotplug_match d ev s) (dev_ctx (devices s d)))).
      needs_free e = 0) \<and>
   (\<forall>k. subseq (hotplug_cbs (contexts (usbi_hotplug_match d ev s) k))
           (hotplug_cbs (contexts s k))) \<and>
   (\<forall>rc s'. libusb_hotplug_register_callback c evs fl v p dc f ud h ok s = Some (rc, s') \<longrightarrow>
      (\<forall>x\<in>set (new_calls s s'). needs_free (call_cb x) = 0) \<and>
      (\<forall>k. \<exists>new. hotplug_cbs (contexts s' k) = new @ hotplug_cbs (contexts s k) \<and>
                 (\<forall>e\<in>set new. needs_free e = 0))) \<and>
   (\<forall>s'. libusb_hotplug_deregister_callback c' h' s = Some s' \<longrightarrow>
      calls s' = calls s \<and>
      (\<forall>k. list_all2 (\<lambda>a b. same_entry a b \<and> (needs_free a \<noteq> 0 \<longrightarrow> needs_free b \<noteq> 0))
              (hotplug_cbs (contexts s k)) (hotplug_cbs (contexts s' k)))) \<and>
   calls (usbi_hotplug_deregister_all k' s) = calls s \<and>
   hotplug_cbs (contexts (usbi_hotplug_deregister_all k' s) k') = [] \<and>
   (\<forall>k. k \<noteq> k' \<longrightarrow>
      hotplug_cbs (contexts (usbi_hotplug_deregister_all k' s) k) = hotplug_cbs (contexts s k))"
proof -
  have m1: "\<forall>x\<in>set (new_calls s (usbi_hotplug_match d ev s)). needs_free (call_cb x) = 0"
  proof
    fix x assume "x \<in> set (new_calls s (usbi_hotplug_match d ev s))"
    then have "call_cb x \<in> set (map call_cb (new_calls s (usbi_hotplug_match d ev s)))"
      by simp
    then have "matches (call_cb x) d ev s"
      by (simp only: match_new_calls(1)) simp
    then show "needs_free (call_cb x) = 0" by (simp add: matches_def)
  qed
  have m2: "\<forall>e\<in>set (hotplug_cbs (contexts (usbi_hotplug_match d ev s) (dev_ctx (devices s d)))).
      needs_free e = 0"
    by (auto simp: match_hotplug_cbs dest: match_loop_kept_active)
  have m3: "\<forall>k. subseq (hotplug_cbs (contexts (usbi_hotplug_match d ev s) k))
           (hotplug_cbs (contexts s k))"
    by (simp add: match_hotplug_cbs match_loop_kept_subseq)
  have r: "\<forall>rc s'. libusb_hotplug_register_callback c evs fl v p dc f ud h ok s = Some (rc, s') \<longrightarrow>
      (\<forall>x\<in>set (new_calls s s'). needs_free (call_cb x) = 0) \<and>
      (\<forall>k. \<exists>new. hotplug_cbs (contexts s' k) = new @ hotplug_cbs (contexts s k) \<and>
                 (\<forall>e\<in>set new. needs_free e = 0))"
    using register_pending by blast
  have dr: "\<forall>s'. libusb_hotplug_deregister_callback c' h' s = Some s' \<longrightarrow>
      calls s' = calls s \<and>
      (\<forall>k. list_all2 (\<lambda>a b. same_entry a b \<and> (needs_free a \<noteq> 0 \<longrightarrow> needs_free b \<noteq> 0))
              (hotplug_cbs (contexts s k)) (hotplug_cbs (contexts s' k)))"
  proof (intro allI impI)
    fix s' assume a: "libusb_hotplug_deregister_callback c' h' s = Some s'"
    have "list_all2 (\<lambda>a b. same_entry a b \<and> (needs_free a \<noteq> 0 \<longrightarrow> needs_free b \<noteq> 0))
              (hotplug_cbs (contexts s k)) (hotplug_cbs (contexts s' k))" for k
      using deregister_Some [OF a] deregister_loop_pending [of "hotplug_cbs (contexts s k)" h']
        same_list_pending [of "hotplug_cbs (contexts s k)"]
      by (metis (no_types, lifting))
    then show "calls s' = calls s \<and>
      (\<forall>k. list_all2 (\<lambda>a b. same_entry a b \<and> (needs_free a \<noteq> 0 \<longrightarrow> needs_free b \<noteq> 0))
              (hotplug_cbs (contexts s k)) (hotplug_cbs (contexts s' k)))"
      using deregister_Some [OF a] by simp
  qed
  show ?thesis
    using m1 m2 m3 r dr by simp
qed


text \<open>On the process whose entry 2 is pending: the arrival of device 10, a registration
  with enumeration, the deregistration of the handle 1, and the teardown.\<close>

theorem pending_never_invoked_witness:
  "needs_free (example_entry 2 1) \<noteq> 0 \<and>
   hotplug_cbs (contexts example_pending 1) = [example_entry 2 1, example_entry 1 0] \<and>
   map (\<lambda>x. handle (call_cb x))
     (new_calls example_pending (usbi_hotplug_match 10 1 example_pending)) = [1] \<and>
   map handle (hotplug_cbs (contexts (usbi_hotplug_match 10 1 example_pending) 1)) = [1] \<and>
   (case libusb_hotplug_register_callback None 3 1 0x045a 0x5005 LIBUSB_HOTPLUG_MATCH_ANY
           (Some count_callback) 0 None True example_pending of
      None \<Rightarrow> False
    | Some (rc, s') \<Rightarrow>
        map (\<lambda>x. handle (call_cb x)) (new_calls example_pending s') = [3] \<and>
        map (\<lambda>e. (handle e, needs_free e)) (hotplug_cbs (contexts s' 1))
          = [(3, 0), (2, 1), (1, 0)]) \<and>
   (case libusb_hotplug_deregister_callback None 1 example_pending of
      None \<Rightarrow> False
    | Some s' \<Rightarrow>
        calls s' = calls example_pending \<and>
        map (\<lambda>e. (handle e, needs_free e)) (hotplug_cbs (contexts s' 1)) = [(2, 1), (1, 1)]) \<and>
   hotplug_cbs (contexts (usbi_hotplug_deregister_all 1 example_pending) 1) = []"
  using pending_never_invoked [where s = example_pending and d = 10 and ev = 1 and c = None
      and evs = 3 and fl = 1 and v = "0x045a" and p = "0x5005" and dc = LIBUSB_HOTPLUG_MATCH_ANY
      and f = "Some count_callback" and ud = 0 and h = None and ok = True and c' = None
      and h' = 1 and k' = 1]
  by (simp add: eval_defs example_defs example_pending_def)

subsection \<open>C3: enumeration at registration\<close>

text \<open>
  Claim C3 says that a callback which returns true during the enumeration at registration
  is detached at once, so that no later dispatch invokes it. The enumeration does invoke
  the callback, with the event ARRIVED, for the device 10 that the filter accepts, before
  the registration returns; but \<^verbatim>\<open>libusb_hotplug_register_callback\<close> drops the result of
  \<^verbatim>\<open>usbi_hotplug_match_cb\<close>. On the concrete process the callback returns 1, the entry
  is still in the registry with \<open>needs_free = 0\<close> when the registration has returned, and
  the dispatch of the next arrival of device 10 invokes it again.
\<close>

theorem enumerate_ignores_detach:
  "libusb_hotplug_register_callback None 3 LIBUSB_HOTPLUG_ENUMERATE 0x045a 0x5005
     LIBUSB_HOTPLUG_MATCH_ANY (Some detach_callback) 0 None True example_state
     = Some (LIBUSB_SUCCESS, example_enumerated) \<and>
   map call_dev (calls example_enumerated) = [10] \<and>
   fst (detach_callback None 10 LIBUSB_HOTPLUG_EVENT_DEVICE_ARRIVED 0 0) = 1 \<and>
   map handle (hotplug_cbs (contexts example_enumerated 1)) = [1] \<and>
   map needs_free (hotplug_cbs (contexts example_enumerated 1)) = [0] \<and>
   map (handle \<circ> call_cb)
     (new_calls example_enumerated
        (usbi_hotplug_match 10 LIBUSB_HOTPLUG_EVENT_DEVICE_ARRIVED example_enumerated)) = [1]"
  by (simp add: example_register_enumerate)
    (simp add: eval_defs example_defs example_enumerated_def)

subsection \<open>C4: the mutexes during a callback\<close>

text \<open>
  Claim C4 says that no callback runs while the registry mutex is held. The dispatch pass
  releases \<^verbatim>\<open>hotplug_cbs_lock\<close> around every evaluation (\<open>match_new_calls\<close>: each
  callback runs with the mutexes the thread held on entry, and no other). The enumeration
  at registration does not: on the concrete process, entered with no mutex held, the
  callback runs while the thread holds \<^verbatim>\<open>hotplug_cbs_lock\<close> and \<^verbatim>\<open>usb_devs_lock\<close> of the
  context.
\<close>

theorem enumerate_holds_registry_lock:
  "libusb_hotplug_register_callback None 3 LIBUSB_HOTPLUG_ENUMERATE 0x045a 0x5005
     LIBUSB_HOTPLUG_MATCH_ANY (Some detach_callback) 0 None True example_state
     = Some (LIBUSB_SUCCESS, example_enumerated) \<and>
   held example_state = [] \<and>
   map call_held (calls example_enumerated) = [[Usb_devs_lock 1, Hotplug_cbs_lock 1]]"
  by (simp add: example_register_enumerate)
    (simp add: example_defs example_enumerated_def)

subsection \<open>C5: the order of a dispatch pass\<close>

text \<open>
  Claim C5 says that a dispatch pass visits the entries in registration order, the
  earliest registered first. It does not: two registrations in the default context get
  the handle ids 1 and 2 in this order, and the dispatch of the arrival of device 10,
  which both entries match, invokes the callback of the entry 2 first and that of the
  entry 1 last.
\<close>

theorem dispatch_order_counterexample:
  "run [Register None 3 0 0x045a 0x5005 LIBUSB_HOTPLUG_MATCH_ANY (Some count_callback) 0 None True,
        Register None 3 0 0x045a 0x5005 LIBUSB_HOTPLUG_MATCH_ANY (Some count_callback) 0 None True,
        Match 10 LIBUSB_HOTPLUG_EVENT_DEVICE_ARRIVED] ([], example_state)
     = Some ([1, 2], usbi_hotplug_match 10 LIBUSB_HOTPLUG_EVENT_DEVICE_ARRIVED example_registered) \<and>
   map (handle \<circ> call_cb)
     (calls (usbi_hotplug_match 10 LIBUSB_HOTPLUG_EVENT_DEVICE_ARRIVED example_registered))
     = [2, 1]"
  using example_match_registered
  by (simp add: example_register_first example_register_second example_heads comp_def)

text \<open>
  Claim C5 as amended. A successful registration links its entry in front of the entries
  that the context's registry holds, and a dispatch pass invokes the callbacks of exactly
  the active entries that accept the event of the device, in the order of the registry
  from its head. So a pass goes from the most recently registered entry to the earliest
  registered one.
\<close>

theorem dispatch_in_list_order:
  "(\<forall>s'. libusb_hotplug_register_callback c evs fl v p dc f ud h ok s
            = Some (LIBUSB_SUCCESS, s') \<and> USBI_GET_CONTEXT c s = Some k \<longrightarrow>
      hotplug_cbs (contexts s' k)
        = registered_entry k evs fl v p dc (the f) ud s # hotplug_cbs (contexts s k)) \<and>
   map call_cb (new_calls s (usbi_hotplug_match d ev s))
     = filter (\<lambda>e. matches e d ev s) (hotplug_cbs (contexts s (dev_ctx (devices s d))))"
proof -
  have "hotplug_cbs (contexts s' k)
        = registered_entry k evs fl v p dc (the f) ud s # hotplug_cbs (contexts s k)"
    if a: "libusb_hotplug_register_callback c evs fl v p dc f ud h ok s
            = Some (LIBUSB_SUCCESS, s')" and k: "USBI_GET_CONTEXT c s = Some k" for s'
  proof -
    have "cap_has_hotplug s" "valid_params v p dc f" "ok"
      using register_Some [OF a] by simp_all
    then obtain s2 where "libusb_hotplug_register_callback c evs fl v p dc f ud h ok s
                  = Some (LIBUSB_SUCCESS, s2)"
      "contexts s2 = (contexts s)(k := (contexts s k)
         \<lparr>hotplug_cbs := registered_entry k evs fl v p dc (the f) ud s # hotplug_cbs (contexts s k)\<rparr>)"
      using register_success [of s v p dc f ok c k evs fl ud h] k by blast
    with a show ?thesis by simp
  qed
  then show ?thesis
    by (simp add: match_new_calls(1))
qed

text \<open>The second registration on the concrete process, and the arrival of device 10.\<close>

theorem dispatch_in_list_order_witness:
  "libusb_hotplug_register_callback None 3 0 0x045a 0x5005 LIBUSB_HOTPLUG_MATCH_ANY
     (Some count_callback) 0 None True example_once = Some (LIBUSB_SUCCESS, example_registered) \<and>
   USBI_GET_CONTEXT None example_once = Some 1 \<and>
   hotplug_cbs (contexts example_registered 1)
     = registered_entry 1 3 0 0x045a 0x5005 LIBUSB_HOTPLUG_MATCH_ANY count_callback 0 example_once
       # hotplug_cbs (contexts example_once 1) \<and>
   map handle (hotplug_cbs (contexts example_registered 1)) = [2, 1] \<and>
   map (\<lambda>x. handle (call_cb x))
     (new_calls example_registered
        (usbi_hotplug_match 10 LIBUSB_HOTPLUG_EVENT_DEVICE_ARRIVED example_registered))
     = [2, 1]"
proof -
  have a: "hotplug_cbs (contexts example_registered 1)
     = registered_entry 1 3 0 0x045a 0x5005 LIBUSB_HOTPLUG_MATCH_ANY count_callback 0 example_once
       # hotplug_cbs (contexts example_once 1)"
    using dispatch_in_list_order [where s = example_once and c = None and k = 1 and evs = 3
      and fl = 0 and v = "0x045a" and p = "0x5005" and dc = LIBUSB_HOTPLUG_MATCH_ANY
      and f = "Some count_callback" and ud = 0 and h = None and ok = True]
      example_register_second example_heads(2)
    by simp
  have b: "map call_cb (new_calls example_registered
        (usbi_hotplug_match 10 LIBUSB_HOTPLUG_EVENT_DEVICE_ARRIVED example_registered))
     = filter (\<lambda>e. matches e 10 LIBUSB_HOTPLUG_EVENT_DEVICE_ARRIVED example_registered)
         (hotplug_cbs (contexts example_registered (dev_ctx (devices example_registered 10))))"
    using dispatch_in_list_order [where s = example_registered and d = 10
      and ev = LIBUSB_HOTPLUG_EVENT_DEVICE_ARRIVED]
    by blast
  have c: "filter (\<lambda>e. matches e 10 LIBUSB_HOTPLUG_EVENT_DEVICE_ARRIVED example_registered)
         (hotplug_cbs (contexts example_registered (dev_ctx (devices example_registered 10))))
       = [example_entry 2 0, example_entry 1 0]"
    by (simp add: example_defs matches_def filter_differs_def LIBUSB_HOTPLUG_MATCH_ANY_def
          LIBUSB_HOTPLUG_EVENT_DEVICE_ARRIVED_def)
  have "map (\<lambda>x. handle (call_cb x))
     (new_calls example_registered
        (usbi_hotplug_match 10 LIBUSB_HOTPLUG_EVENT_DEVICE_ARRIVED example_registered))
     = map handle (map call_cb (new_calls example_registered
        (usbi_hotplug_match 10 LIBUSB_HOTPLUG_EVENT_DEVICE_ARRIVED example_registered)))"
    by simp
  also have "\<dots> = [2, 1]"
    by (simp only: b c) (simp add: example_entry_def)
  finally have d: "map (\<lambda>x. handle (call_cb x))
     (new_calls example_registered
        (usbi_hotplug_match 10 LIBUSB_HOTPLUG_EVENT_DEVICE_ARRIVED example_registered))
     = [2, 1]" .
  have e: "map handle (hotplug_cbs (contexts example_registered 1)) = [2, 1]"
    by (simp add: example_defs)
  show ?thesis
    using a d e example_register_second example_heads(2) by simp
qed

subsection \<open>C6: a LEFT event disconnects the handles of the device\<close>

text \<open>
  Claim C6. After \<^verbatim>\<open>usbi_hotplug_match\<close> with the event LEFT for a device, whatever the
  registries and the callbacks, the list of open handles of the device's context has its
  length and order; every handle bound to the device has gone through
  \<^verbatim>\<open>usbi_handle_disconnect\<close>, so it is marked disconnected and still bound to the device,
  every handle bound to another device is unchanged, and so are the open handles of every
  other context. With the event ARRIVED no list of open handles changes.
\<close>

theorem left_disconnects_handles:
  "(let s' = usbi_hotplug_match d LIBUSB_HOTPLUG_EVENT_DEVICE_LEFT s;
        old = open_devs (contexts s (dev_ctx (devices s d)));
        new = open_devs (contexts s' (dev_ctx (devices s d)))
    in length new = length old \<and>
       (\<forall>i < length old.
          (handle_dev (old ! i) = d \<longrightarrow>
             new ! i = usbi_handle_disconnect (old ! i) \<and> disconnected (new ! i) \<and>
             handle_dev (new ! i) = d) \<and>
          (handle_dev (old ! i) \<noteq> d \<longrightarrow> new ! i = old ! i)) \<and>
       (\<forall>k. k \<noteq> dev_ctx (devices s d) \<longrightarrow>
          open_devs (contexts s' k) = open_devs (contexts s k))) \<and>
   (\<forall>k. open_devs (contexts (usbi_hotplug_match d LIBUSB_HOTPLUG_EVENT_DEVICE_ARRIVED s) k)
          = open_devs (contexts s k))"
  by (simp add: Let_def match_open_devs_left match_open_devs_other disconnect_loop_nth
        usbi_handle_disconnect_def)

text \<open>Three open handles, the first and the third bound to device 10.\<close>

theorem left_disconnects_handles_witness:
  "map disconnected
     (open_devs (contexts (usbi_hotplug_match 10 LIBUSB_HOTPLUG_EVENT_DEVICE_LEFT example_registered) 1))
     = [True, False, True] \<and>
   map handle_dev (open_devs (contexts example_registered 1)) = [10, 11, 10] \<and>
   map disconnected
     (open_devs (contexts (usbi_hotplug_match 10 LIBUSB_HOTPLUG_EVENT_DEVICE_ARRIVED example_registered) 1))
     = [False, False, False]"
  using left_disconnects_handles [of 10 example_registered]
  by (simp add: Let_def example_registered_def example_state_def example_contexts_def
        example_devices_def match_open_devs_left match_open_devs_other
        usbi_handle_disconnect_def)

subsection \<open>C7: the error returns of registration\<close>

text \<open>
  Claim C7. \<^verbatim>\<open>libusb_hotplug_register_callback\<close> returns NOT_SUPPORTED when the hotplug
  capability is absent. With the capability, it returns INVALID_PARAM when the callback is
  missing or when a vendor or product filter that is not ANY lies outside 16 bits, or a
  class filter that is not ANY lies outside 8 bits. With valid parameters it returns NO_MEM
  when the allocation fails. Every return other than SUCCESS leaves the whole state as it
  was, so no registry gains an entry.
\<close>

theorem register_error_cases:
  "(let r = libusb_hotplug_register_callback c evs fl v p dc f ud h ok s;
        invalid = (f = None \<or> out_of_domain 16 v \<or> out_of_domain 16 p \<or> out_of_domain 8 dc)
    in (\<not> cap_has_hotplug s \<longrightarrow> r = Some (LIBUSB_ERROR_NOT_SUPPORTED, s)) \<and>
       (cap_has_hotplug s \<and> invalid \<longrightarrow> r = Some (LIBUSB_ERROR_INVALID_PARAM, s)) \<and>
       (cap_has_hotplug s \<and> \<not> invalid \<and> \<not> ok \<longrightarrow> r = Some (LIBUSB_ERROR_NO_MEM, s)) \<and>
       (\<forall>rc s'. r = Some (rc, s') \<and> rc \<noteq> LIBUSB_SUCCESS \<longrightarrow> s' = s))"
proof -
  have v: "(LIBUSB_HOTPLUG_MATCH_ANY \<noteq> v \<and> NOT 0xffff AND v \<noteq> 0) = out_of_domain 16 v"
    using range_check16 [of v] by (auto simp: out_of_domain_def)
  have p: "(LIBUSB_HOTPLUG_MATCH_ANY \<noteq> p \<and> NOT 0xffff AND p \<noteq> 0) = out_of_domain 16 p"
    using range_check16 [of p] by (auto simp: out_of_domain_def)
  have dc: "(LIBUSB_HOTPLUG_MATCH_ANY \<noteq> dc \<and> NOT 0xff AND dc \<noteq> 0) = out_of_domain 8 dc"
    using range_check8 [of dc] by (auto simp: out_of_domain_def)
  show ?thesis
    unfolding libusb_hotplug_register_callback_def v p dc
    by (auto simp: Let_def split: option.splits)
qed

text \<open>The error returns on the concrete process: no capability, a vendor id of 17 bits,
  a missing callback, a failing allocation.\<close>

theorem register_error_cases_witness:
  "\<not> cap_has_hotplug (example_state\<lparr>cap_has_hotplug := False\<rparr>) \<and>
   libusb_hotplug_register_callback None 3 0 0x045a 0x5005 LIBUSB_HOTPLUG_MATCH_ANY
       (Some count_callback) 0 (Some 100) True (example_state\<lparr>cap_has_hotplug := False\<rparr>)
     = Some (LIBUSB_ERROR_NOT_SUPPORTED, example_state\<lparr>cap_has_hotplug := False\<rparr>) \<and>
   cap_has_hotplug example_state \<and> out_of_domain 16 0x10000 \<and>
   libusb_hotplug_register_callback None 3 0 0x10000 0x5005 LIBUSB_HOTPLUG_MATCH_ANY
       (Some count_callback) 0 (Some 100) True example_state
     = Some (LIBUSB_ERROR_INVALID_PARAM, example_state) \<and>
   libusb_hotplug_register_callback None 3 0 0x045a 0x5005 LIBUSB_HOTPLUG_MATCH_ANY
       None 0 (Some 100) True example_state
     = Some (LIBUSB_ERROR_INVALID_PARAM, example_state) \<and>
   \<not> out_of_domain 16 0x045a \<and> \<not> out_of_domain 16 0x5005 \<and>
   \<not> out_of_domain 8 LIBUSB_HOTPLUG_MATCH_ANY \<and>
   libusb_hotplug_register_callback None 3 0 0x045a 0x5005 LIBUSB_HOTPLUG_MATCH_ANY
       (Some count_callback) 0 (Some 100) False example_state
     = Some (LIBUSB_ERROR_NO_MEM, example_state)"
  using register_error_cases [where s = "example_state\<lparr>cap_has_hotplug := False\<rparr>" and c = None and evs = 3 and fl = 0 and v = "0x045a"
      and p = "0x5005" and dc = LIBUSB_HOTPLUG_MATCH_ANY and f = "Some count_callback" and ud = 0
      and h = "Some 100" and ok = True]
    register_error_cases [where s = "example_state" and c = None and evs = 3 and fl = 0 and v = "0x10000"
      and p = "0x5005" and dc = LIBUSB_HOTPLUG_MATCH_ANY and f = "Some count_callback" and ud = 0
      and h = "Some 100" and ok = True]
    register_error_cases [where s = "example_state" and c = None and evs = 3 and fl = 0 and v = "0x045a"
      and p = "0x5005" and dc = LIBUSB_HOTPLUG_MATCH_ANY and f = "None" and ud = 0
      and h = "Some 100" and ok = True]
    register_error_cases [where s = "example_state" and c = None and evs = 3 and fl = 0 and v = "0x045a"
      and p = "0x5005" and dc = LIBUSB_HOTPLUG_MATCH_ANY and f = "Some count_callback" and ud = 0
      and h = "Some 100" and ok = False]
  by (simp add: Let_def out_of_domain_def example_state_def LIBUSB_HOTPLUG_MATCH_ANY_def)

subsection \<open>C8: deregistration\<close>

text \<open>
  Claim C8. \<^verbatim>\<open>libusb_hotplug_deregister_callback\<close> returns nothing, so it reports no error.
  Without the hotplug capability it leaves the state as it was. Otherwise, in the context
  it is given (the default context for NULL), the registry keeps its length and its
  entries in place; an entry with the given handle gets \<open>needs_free\<close> set to 1 and keeps
  its other fields, every other entry and the rest of the state are unchanged; and when
  no entry has the handle, the state is as it was.
\<close>

theorem deregister_marks_only:
  "(\<not> cap_has_hotplug s \<longrightarrow> libusb_hotplug_deregister_callback c h s = Some s) \<and>
   (cap_has_hotplug s \<and> USBI_GET_CONTEXT c s = Some k \<longrightarrow>
      (\<exists>l. libusb_hotplug_deregister_callback c h s = Some (set_hotplug_cbs k l s) \<and>
           length l = length (hotplug_cbs (contexts s k)) \<and>
           (\<forall>i < length l.
              l ! i = (if handle (hotplug_cbs (contexts s k) ! i) = h
                       then (hotplug_cbs (contexts s k) ! i)\<lparr>needs_free := 1\<rparr>
                       else hotplug_cbs (contexts s k) ! i)) \<and>
           ((\<forall>e\<in>set (hotplug_cbs (contexts s k)). handle e \<noteq> h) \<longrightarrow>
              libusb_hotplug_deregister_callback c h s = Some s)))"
proof (intro conjI impI)
  assume "\<not> cap_has_hotplug s"
  then show "libusb_hotplug_deregister_callback c h s = Some s"
    by (simp add: libusb_hotplug_deregister_callback_def)
next
  assume a: "cap_has_hotplug s \<and> USBI_GET_CONTEXT c s = Some k"
  let ?old = "hotplug_cbs (contexts s k)"
  let ?l = "deregister_loop h ?old"
  have r: "libusb_hotplug_deregister_callback c h s = Some (set_hotplug_cbs k ?l s)"
    using a by (simp add: libusb_hotplug_deregister_callback_def Let_def)
  have n: "\<forall>i < length ?l. ?l ! i = (if handle (?old ! i) = h
                       then (?old ! i)\<lparr>needs_free := 1\<rparr> else ?old ! i)"
    by (auto simp: deregister_loop_nth)
  have u: "(\<forall>e\<in>set ?old. handle e \<noteq> h) \<longrightarrow>
              libusb_hotplug_deregister_callback c h s = Some s"
    by (simp add: r deregister_loop_id)
  show "\<exists>l. libusb_hotplug_deregister_callback c h s = Some (set_hotplug_cbs k l s) \<and>
           length l = length ?old \<and>
           (\<forall>i < length l.
              l ! i = (if handle (?old ! i) = h
                       then (?old ! i)\<lparr>needs_free := 1\<rparr>
                       else ?old ! i)) \<and>
           ((\<forall>e\<in>set ?old. handle e \<noteq> h) \<longrightarrow>
              libusb_hotplug_deregister_callback c h s = Some s)"
    using r n u by (intro exI [of _ ?l]) simp
qed

text \<open>On the process with the entries 2 and 1: no capability, the handle 2, the unknown
  handle 7.\<close>

theorem deregister_marks_only_witness:
  "\<not> cap_has_hotplug (example_registered\<lparr>cap_has_hotplug := False\<rparr>) \<and>
   libusb_hotplug_deregister_callback None 2 (example_registered\<lparr>cap_has_hotplug := False\<rparr>)
     = Some (example_registered\<lparr>cap_has_hotplug := False\<rparr>) \<and>
   cap_has_hotplug example_registered \<and> USBI_GET_CONTEXT None example_registered = Some 1 \<and>
   (\<exists>l. libusb_hotplug_deregister_callback None 2 example_registered
          = Some (set_hotplug_cbs 1 l example_registered) \<and>
        l = [(example_entry 2 0)\<lparr>needs_free := 1\<rparr>, example_entry 1 0]) \<and>
   map handle (hotplug_cbs (contexts example_registered 1)) = [2, 1] \<and>
   libusb_hotplug_deregister_callback None 7 example_registered = Some example_registered"
  using deregister_marks_only [of "example_registered\<lparr>cap_has_hotplug := False\<rparr>" None 2 1]
    deregister_marks_only [of example_registered None 2 1]
    deregister_marks_only [of example_registered None 7 1]
  by (simp add: libusb_hotplug_deregister_callback_def USBI_GET_CONTEXT_def Let_def
        example_registered_def example_state_def example_contexts_def example_entry_def
        set_hotplug_cbs_def usbi_mutex_lock_def usbi_mutex_unlock_def)

subsection \<open>C9: the handle ids\<close>

text \<open>
  Claim C9 says that the handle ids strictly increase with each successful registration
  and are never reused. The counter is a C \<^verbatim>\<open>int\<close>: when it holds \<^verbatim>\<open>INT_MAX\<close>, which
  \<open>counter_reaches_max\<close> shows it does after 2147483646 successful registrations, the
  next registration gets the id \<^verbatim>\<open>INT_MAX\<close> and the one after it gets \<^verbatim>\<open>INT_MIN\<close>, which
  is smaller; no \<^verbatim>\<open>int\<close> is greater than \<^verbatim>\<open>INT_MAX\<close>.
\<close>

theorem handle_ids_counterexample:
  "map_option fst
     (run [Register None 3 0 0x045a 0x5005 LIBUSB_HOTPLUG_MATCH_ANY (Some count_callback) 0
             None True,
           Register None 3 0 0x045a 0x5005 LIBUSB_HOTPLUG_MATCH_ANY (Some count_callback) 0
             None True] ([], example_max))
     = Some [0x7fffffff, 0x80000000] \<and>
   sint (0x80000000 :: c_int) < sint (0x7fffffff :: c_int)"
  by (simp add: eval_defs example_defs example_max_def)

text \<open>
  Claim C9 as amended. Whatever registrations (through any contexts), deregistrations,
  dispatch passes and teardowns a process runs from a state \<open>s\<close>, the handle ids that its
  successful registrations assign are the successive values of the one counter from its
  value in \<open>s\<close> on (1 at the start of the process, so 1, 2, 3, ...), each registration
  advancing the counter by one; and as long as the last of them is at most \<^verbatim>\<open>INT_MAX\<close>,
  they strictly increase and no two of them are equal.
\<close>

theorem handle_ids_increase:
  "run ops ([], s) = Some (ids, s') \<longrightarrow>
     ids = ids_from (handle_id s) (length ids) \<and>
     handle_id s' = handle_id s + of_nat (length ids) \<and>
     (sint (handle_id s) + int (length ids) \<le> 2 ^ 31 \<longrightarrow>
        sorted_wrt (\<lambda>a b. sint a < sint b) ids \<and> distinct ids)"
proof
  assume "run ops ([], s) = Some (ids, s')"
  then obtain n where n: "ids = ids_from (handle_id s) n" "handle_id s' = handle_id s + of_nat n"
    using run_counter [of ops "[]" s ids s'] by auto
  then have l: "length ids = n" by simp
  show "ids = ids_from (handle_id s) (length ids) \<and>
     handle_id s' = handle_id s + of_nat (length ids) \<and>
     (sint (handle_id s) + int (length ids) \<le> 2 ^ 31 \<longrightarrow>
        sorted_wrt (\<lambda>a b. sint a < sint b) ids \<and> distinct ids)"
    unfolding l using n ids_from_increasing [of "handle_id s" n] ids_from_distinct [of "handle_id s" n]
    by simp
qed

text \<open>A registration in the default context and one in context 2, from the start.\<close>

theorem handle_ids_increase_witness:
  "(\<exists>s'. run [Register None 3 0 0x045a 0x5005 LIBUSB_HOTPLUG_MATCH_ANY (Some count_callback) 0
                  None True,
                Register (Some 2) 3 0 LIBUSB_HOTPLUG_MATCH_ANY LIBUSB_HOTPLUG_MATCH_ANY 9
                  (Some detach_callback) 0 (Some 100) True] ([], example_state)
            = Some ([1, 2], s') \<and>
         handle_id s' = 3) \<and>
   handle_id example_state = 1 \<and>
   sint (handle_id example_state) + int (length [1, 2 :: c_int]) \<le> 2 ^ 31 \<and>
   ids_from 1 2 = [1, 2] \<and>
   sorted_wrt (\<lambda>a b. sint a < sint b) [1, 2 :: c_int] \<and> distinct [1, 2 :: c_int]"
proof -
  let ?ops = "[Register None 3 0 0x045a 0x5005 LIBUSB_HOTPLUG_MATCH_ANY (Some count_callback) 0
                  None True,
                Register (Some 2) 3 0 LIBUSB_HOTPLUG_MATCH_ANY LIBUSB_HOTPLUG_MATCH_ANY 9
                  (Some detach_callback) 0 (Some 100) True]"
  have "\<exists>s2. step (Register (Some 2) 3 0 LIBUSB_HOTPLUG_MATCH_ANY LIBUSB_HOTPLUG_MATCH_ANY 9
                  (Some detach_callback) 0 (Some 100) True) ([1], example_once) = Some ([1, 2], s2)"
    by (simp add: eval_defs example_defs example_once_def)
  then obtain s2 where r: "run ?ops ([], example_state) = Some ([1, 2], s2)"
    by (auto simp: example_register_first example_heads)
  have h: "handle_id example_state = 1"
    by (simp add: example_state_def)
  have b: "sint (handle_id example_state) + int (length [1, 2 :: c_int]) \<le> 2 ^ 31"
    by (simp add: h)
  from handle_ids_increase [of ?ops example_state "[1, 2]" s2] r b
  have c: "handle_id s2 = handle_id example_state + of_nat (length [1, 2 :: c_int])"
      "sorted_wrt (\<lambda>a b. sint a < sint b) [1, 2 :: c_int]" "distinct [1, 2 :: c_int]"
    by blast+
  from handle_ids_increase [of ?ops example_state "[1, 2]" s2] r
  have "[1, 2] = ids_from (handle_id example_state) (length [1, 2 :: c_int])"
    by blast
  then have i: "ids_from 1 2 = [1, 2]"
    by (simp only: h list.size) (simp add: numeral_2_eq_2)
  have "handle_id s2 = 3"
    using c(1) by (simp add: h)
  with r have e: "\<exists>s'. run ?ops ([], example_state) = Some ([1, 2], s') \<and> handle_id s' = 3"
    by blast
  from e h b i c(2,3) show ?thesis
    by (intro conjI)
qed

subsection \<open>C10: registration with a NULL output location\<close>

text \<open>
  Claim C10. With the capability, valid parameters, a successful allocation and a context
  (the given one, or the default one for NULL), \<^verbatim>\<open>libusb_hotplug_register_callback\<close>
  returns LIBUSB_SUCCESS whether or not the output location is NULL. The new entry, with
  the current value of the counter as its handle id, is linked in front of the context's
  registry, and the counter advances by one. With a NULL location the memory is unchanged;
  with a location \<open>a\<close> the handle id is stored at \<open>a\<close> and nowhere else. A later
  dispatch for a device of that context that the entry matches invokes the entry's
  callback (first of all, since the entry heads the list).
\<close>

theorem register_null_handle:
  "cap_has_hotplug s \<and> valid_params v p dc f \<and> ok \<and> USBI_GET_CONTEXT c s = Some k \<longrightarrow>
   (\<exists>s'. libusb_hotplug_register_callback c evs fl v p dc f ud h ok s
            = Some (LIBUSB_SUCCESS, s') \<and>
         hotplug_cbs (contexts s' k)
            = registered_entry k evs fl v p dc (the f) ud s # hotplug_cbs (contexts s k) \<and>
         handle_id s' = handle_id s + 1 \<and>
         (h = None \<longrightarrow> memory s' = memory s) \<and>
         (\<forall>a. h = Some a \<longrightarrow> memory s' = (memory s)(a := handle_id s)) \<and>
         (\<forall>d ev. dev_ctx (devices s d) = k \<and>
                 matches (registered_entry k evs fl v p dc (the f) ud s) d ev s \<longrightarrow>
            (\<exists>x xs. new_calls s' (usbi_hotplug_match d ev s') = x # xs \<and>
                    call_cb x = registered_entry k evs fl v p dc (the f) ud s)))"
proof
  assume a: "cap_has_hotplug s \<and> valid_params v p dc f \<and> ok \<and> USBI_GET_CONTEXT c s = Some k"
  let ?e = "registered_entry k evs fl v p dc (the f) ud s"
  obtain s' where s': "libusb_hotplug_register_callback c evs fl v p dc f ud h ok s
                  = Some (LIBUSB_SUCCESS, s')"
      "contexts s' = (contexts s)(k := (contexts s k)\<lparr>hotplug_cbs := ?e # hotplug_cbs (contexts s k)\<rparr>)"
      "handle_id s' = handle_id s + 1"
      "memory s' = (case h of None \<Rightarrow> memory s | Some a \<Rightarrow> (memory s)(a := handle_id s))"
      "devices s' = devices s"
    using register_success [of s v p dc f ok c k evs fl ud h] a by blast
  have d: "\<exists>x xs. new_calls s' (usbi_hotplug_match d ev s') = x # xs \<and> call_cb x = ?e"
    if "dev_ctx (devices s d) = k" "matches ?e d ev s" for d ev
  proof -
    have "matches ?e d ev s'"
      using that(2) by (simp add: matches_def s'(5))
    then have "map call_cb (new_calls s' (usbi_hotplug_match d ev s'))
        = ?e # filter (\<lambda>e. matches e d ev s') (hotplug_cbs (contexts s k))"
      using that(1) by (simp add: match_new_calls(1) s'(2,5))
    then show ?thesis by (auto simp: map_eq_Cons_conv)
  qed
  show "\<exists>s'. libusb_hotplug_register_callback c evs fl v p dc f ud h ok s
            = Some (LIBUSB_SUCCESS, s') \<and>
         hotplug_cbs (contexts s' k) = ?e # hotplug_cbs (contexts s k) \<and>
         handle_id s' = handle_id s + 1 \<and>
         (h = None \<longrightarrow> memory s' = memory s) \<and>
         (\<forall>a. h = Some a \<longrightarrow> memory s' = (memory s)(a := handle_id s)) \<and>
         (\<forall>d ev. dev_ctx (devices s d) = k \<and> matches ?e d ev s \<longrightarrow>
            (\<exists>x xs. new_calls s' (usbi_hotplug_match d ev s') = x # xs \<and> call_cb x = ?e))"
    using s' d by (intro exI [of _ s']) auto
qed

text \<open>
  The registration of the documentation's example with a NULL location, followed by the
  arrival of device 10; and the same registration with the location 100.
\<close>

theorem register_null_handle_witness:
  "cap_has_hotplug example_state \<and>
   valid_params 0x045a 0x5005 LIBUSB_HOTPLUG_MATCH_ANY (Some count_callback) \<and>
   USBI_GET_CONTEXT None example_state = Some 1 \<and>
   dev_ctx (devices example_state 10) = 1 \<and>
   matches (registered_entry 1 3 0 0x045a 0x5005 LIBUSB_HOTPLUG_MATCH_ANY count_callback 0
              example_state) 10 LIBUSB_HOTPLUG_EVENT_DEVICE_ARRIVED example_state \<and>
   handle (registered_entry 1 3 0 0x045a 0x5005 LIBUSB_HOTPLUG_MATCH_ANY count_callback 0
              example_state) = 1 \<and>
   (\<exists>s'. libusb_hotplug_register_callback None 3 0 0x045a 0x5005 LIBUSB_HOTPLUG_MATCH_ANY
            (Some count_callback) 0 None True example_state = Some (LIBUSB_SUCCESS, s') \<and>
         hotplug_cbs (contexts s' 1)
            = [registered_entry 1 3 0 0x045a 0x5005 LIBUSB_HOTPLUG_MATCH_ANY count_callback 0
                 example_state] \<and>
         handle_id s' = 2 \<and> memory s' = memory example_state \<and>
         (\<exists>x xs. new_calls s' (usbi_hotplug_match 10 LIBUSB_HOTPLUG_EVENT_DEVICE_ARRIVED s')
                    = x # xs \<and>
                 call_cb x = registered_entry 1 3 0 0x045a 0x5005 LIBUSB_HOTPLUG_MATCH_ANY
                               count_callback 0 example_state)) \<and>
   (\<exists>s'. libusb_hotplug_register_callback None 3 0 0x045a 0x5005 LIBUSB_HOTPLUG_MATCH_ANY
            (Some count_callback) 0 (Some 100) True example_state = Some (LIBUSB_SUCCESS, s') \<and>
         memory s' = (memory example_state)(100 := 1))"
proof -
  let ?e = "registered_entry 1 3 0 0x045a 0x5005 LIBUSB_HOTPLUG_MATCH_ANY count_callback 0
              example_state"
  have hyp: "cap_has_hotplug example_state \<and>
      valid_params 0x045a 0x5005 LIBUSB_HOTPLUG_MATCH_ANY (Some count_callback) \<and> True \<and>
      USBI_GET_CONTEXT None example_state = Some 1"
    by (simp add: example_defs valid_params_def out_of_domain_def USBI_GET_CONTEXT_def
          LIBUSB_HOTPLUG_MATCH_ANY_def)
  have m: "dev_ctx (devices example_state 10) = 1 \<and>
      matches ?e 10 LIBUSB_HOTPLUG_EVENT_DEVICE_ARRIVED example_state"
    by (simp add: example_defs matches_def filter_differs_def registered_entry_def
          LIBUSB_HOTPLUG_MATCH_ANY_def LIBUSB_HOTPLUG_EVENT_DEVICE_ARRIVED_def)
  have e: "handle ?e = 1" "hotplug_cbs (contexts example_state 1) = []"
      "handle_id example_state + 1 = 2"
    by (simp_all add: registered_entry_def example_defs)
  from register_null_handle [where s = example_state and c = None and k = 1 and evs = 3
      and fl = 0 and v = "0x045a" and p = "0x5005" and dc = LIBUSB_HOTPLUG_MATCH_ANY
      and f = "Some count_callback" and ud = 0 and ok = True and h = None] hyp
  obtain s' where s': "libusb_hotplug_register_callback None 3 0 0x045a 0x5005
        LIBUSB_HOTPLUG_MATCH_ANY (Some count_callback) 0 None True example_state
          = Some (LIBUSB_SUCCESS, s')"
      "hotplug_cbs (contexts s' 1) = ?e # hotplug_cbs (contexts example_state 1)"
      "handle_id s' = handle_id example_state + 1"
      "memory s' = memory example_state"
      "\<forall>d ev. dev_ctx (devices example_state d) = 1 \<and> matches ?e d ev example_state \<longrightarrow>
            (\<exists>x xs. new_calls s' (usbi_hotplug_match d ev s') = x # xs \<and> call_cb x = ?e)"
    by auto
  from s'(5) m
  have "\<exists>x xs. new_calls s' (usbi_hotplug_match 10 LIBUSB_HOTPLUG_EVENT_DEVICE_ARRIVED s')
                    = x # xs \<and> call_cb x = ?e"
    by blast
  with s'(1-4) e
  have n: "\<exists>s'. libusb_hotplug_register_callback None 3 0 0x045a 0x5005 LIBUSB_HOTPLUG_MATCH_ANY
            (Some count_callback) 0 None True example_state = Some (LIBUSB_SUCCESS, s') \<and>
         hotplug_cbs (contexts s' 1) = [?e] \<and>
         handle_id s' = 2 \<and> memory s' = memory example_state \<and>
         (\<exists>x xs. new_calls s' (usbi_hotplug_match 10 LIBUSB_HOTPLUG_EVENT_DEVICE_ARRIVED s')
                    = x # xs \<and> call_cb x = ?e)"
    by (intro exI [of _ s']) simp
  from register_null_handle [where s = example_state and c = None and k = 1 and evs = 3
      and fl = 0 and v = "0x045a" and p = "0x5005" and dc = LIBUSB_HOTPLUG_MATCH_ANY
      and f = "Some count_callback" and ud = 0 and ok = True and h = "Some 100"] hyp
  obtain s2 where s2: "libusb_hotplug_register_callback None 3 0 0x045a 0x5005
        LIBUSB_HOTPLUG_MATCH_ANY (Some count_callback) 0 (Some 100) True example_state
          = Some (LIBUSB_SUCCESS, s2)"
      "memory s2 = (memory example_state)(100 := handle_id example_state)"
    by auto
  have "handle_id example_state = 1"
    by (simp add: example_state_def)
  with s2 have w: "\<exists>s'. libusb_hotplug_register_callback None 3 0 0x045a 0x5005
        LIBUSB_HOTPLUG_MATCH_ANY (Some count_callback) 0 (Some 100) True example_state
          = Some (LIBUSB_SUCCESS, s') \<and> memory s' = (memory example_state)(100 := 1)"
    by (intro exI [of _ s2]) simp
  from hyp m e(1) n w show ?thesis
    by (intro conjI) simp_all
qed

end
